theory Spec2Isabelle
  imports Main "HOL-Library.Word" "HOL-Library.Monad_Syntax"
begin

unbundle bit_operations_syntax

section \<open>Capacities, machine integers, errors\<close>

text \<open>
  \<^verbatim>\<open>ecs.hpp\<close> fixes two capacities (lines 19-25), both at their defaults here. A
  signature is a \<^verbatim>\<open>std::bitset<ECS_MAX_COMPONENT_COUNT>\<close>, modelled as a 64-bit word.
\<close>

abbreviation ECS_MAX_ENTITY_COUNT :: nat where
  "ECS_MAX_ENTITY_COUNT \<equiv> 65535"

abbreviation ECS_MAX_COMPONENT_COUNT :: nat where
  "ECS_MAX_COMPONENT_COUNT \<equiv> 64"

type_synonym signature = "64 word"

text \<open>
  Entity ids, view handles, slot indices and reference counts are \<^verbatim>\<open>uint32_t\<close>, the two
  live-list links are \<^verbatim>\<open>uint16_t\<close>. They are natural numbers here, and every place where
  the source computes or narrows one is wrapped explicitly.
\<close>

definition uint32_t :: "nat \<Rightarrow> nat" where
  "uint32_t x = x mod 4294967296"

definition uint16_t :: "nat \<Rightarrow> nat" where
  "uint16_t x = x mod 65536"

text \<open>
  The source throws \<^verbatim>\<open>std::runtime_error\<close> from its own checks and \<^verbatim>\<open>std::out_of_range\<close> from
  every \<^verbatim>\<open>.at()\<close>. Dereferencing a null storage pointer is undefined behaviour, recorded as
  its own outcome. An operation returns its outcome together with the registry as it is at that
  point, so a throw after a partial mutation shows the mutation.
\<close>

datatype error = runtime_error string | out_of_range

datatype 'a result = Returns 'a | Throws error | Undefined

fun InvalidHandle_class :: "'a result \<Rightarrow> bool" where
  "InvalidHandle_class (Throws (runtime_error msg)) = True"
| "InvalidHandle_class other = False"

section \<open>Data\<close>

text \<open>\<^verbatim>\<open>struct Entity\<close> (lines 27-31), with its default member initialisers.\<close>

record Entity =
  m_id_or_next_empty :: nat
  m_next_valid_entity :: nat
  m_prev_valid_entity :: nat

definition Entity_default :: Entity where
  "Entity_default =
     \<lparr>m_id_or_next_empty = 0, m_next_valid_entity = uint16_t ECS_MAX_ENTITY_COUNT,
      m_prev_valid_entity = 0\<rparr>"

text \<open>
  The private members of \<^verbatim>\<open>class Registry\<close> (lines 236-244). A \<^verbatim>\<open>std::array\<close> is a function
  on indices, every \<^verbatim>\<open>.at(i)\<close> being checked against the capacity where it is used; the two
  \<^verbatim>\<open>std::unordered_map\<close>s are association lists with distinct keys, whose order stands for the
  (unspecified) iteration order; a \<^verbatim>\<open>std::unique_ptr\<close> is an optional address into the heap
  of component arrays. A component type is known to the registry by \<^verbatim>\<open>typeid(T).hash_code()\<close>
  only, a \<^verbatim>\<open>size_t\<close>.
\<close>

record Registry =
  m_first_available_entity_slot :: nat
  m_view_count :: nat
  m_entities :: "nat \<Rightarrow> Entity"
  m_entity_signatures :: "nat \<Rightarrow> signature"
  m_view_entities :: "(nat \<times> nat set) list"
  m_view_signatures :: "(nat \<times> signature) list"
  m_bit_to_component :: "nat \<Rightarrow> nat"
  m_components_assigned :: "nat \<Rightarrow> nat"
  m_component_arrays :: "nat \<Rightarrow> nat option"

text \<open>The registry as the default member initialisers leave it, before any constructor body.\<close>

definition Registry_members :: Registry where
  "Registry_members =
     \<lparr>m_first_available_entity_slot = 0, m_view_count = 0,
      m_entities = (\<lambda>i. Entity_default),
      m_entity_signatures = (\<lambda>i. 0),
      m_view_entities = [], m_view_signatures = [],
      m_bit_to_component = (\<lambda>bit. 0),
      m_components_assigned = (\<lambda>bit. 0),
      m_component_arrays = (\<lambda>bit. None)\<rparr>"

text \<open>
  \<^verbatim>\<open>Registry()\<close> (lines 49-52): the loop writes \<^verbatim>\<open>i + 1\<close> into slot \<^verbatim>\<open>i\<close> for every index below
  the capacity.
\<close>

definition Registry_ctor :: Registry where
  "Registry_ctor =
     Registry_members
       \<lparr>m_entities := (\<lambda>i. if i < ECS_MAX_ENTITY_COUNT
                            then Entity_default\<lparr>m_id_or_next_empty := i + 1\<rparr>
                            else Entity_default)\<rparr>"

section \<open>Entity allocator\<close>

text \<open>
  \<^verbatim>\<open>create_entity\<close> (lines 93-107). \<^verbatim>\<open>new_entity\<close> is a copy of the slot, not a reference: what
  the source writes into it stays local, and only the id is returned.
\<close>

definition create_entity :: "Registry \<Rightarrow> nat result \<times> Registry" where
  "create_entity r =
     (let temp = m_first_available_entity_slot r in
      if \<not> temp < ECS_MAX_ENTITY_COUNT then (Throws out_of_range, r)
      else
        let new_entity = m_entities r temp;
            r1 = r\<lparr>m_first_available_entity_slot := m_id_or_next_empty new_entity\<rparr>;
            new_entity = new_entity\<lparr>m_id_or_next_empty := temp\<rparr>
        in if temp > 0 then
             let before = m_entities r1 (temp - 1);
                 new_entity = new_entity
                   \<lparr>m_next_valid_entity := m_next_valid_entity before,
                    m_prev_valid_entity := uint16_t (m_id_or_next_empty before)\<rparr>;
                 r2 = r1\<lparr>m_entities := (m_entities r1)
                        (temp - 1 := before\<lparr>m_next_valid_entity := uint16_t temp\<rparr>)\<rparr>
             in (Returns (m_id_or_next_empty new_entity), r2)
           else (Returns (m_id_or_next_empty new_entity), r1))"

text \<open>
  The \<^verbatim>\<open>do ... while (i < entity)\<close> loop of \<^verbatim>\<open>destroy_entity\<close> (lines 122-125). It reads the
  slot table without changing it; the value of \<^verbatim>\<open>i\<close> at the exit is all that the rest of the
  function uses, since \<^verbatim>\<open>last_empty_slot_before\<close> is a copy. The loop need not end on an
  arbitrary slot table, so not returning is \<open>None\<close>.
\<close>

partial_function (option) free_slot_scan :: "(nat \<Rightarrow> Entity) \<Rightarrow> nat \<Rightarrow> nat \<Rightarrow> nat result option" where
  "free_slot_scan slots entity i =
     (if \<not> i < ECS_MAX_ENTITY_COUNT then Some (Throws out_of_range)
      else
        let last_empty_slot_before = slots i;
            i' = m_id_or_next_empty last_empty_slot_before
        in if i' < entity then free_slot_scan slots entity i' else Some (Returns i'))"

text \<open>Lines 116-129 of \<^verbatim>\<open>destroy_entity\<close>: the slot goes back to the free list.\<close>

definition release_slot :: "Registry \<Rightarrow> nat \<Rightarrow> (unit result \<times> Registry) option" where
  "release_slot r entity =
     (if entity < m_first_available_entity_slot r then
        Some (Returns (),
          r\<lparr>m_entities := (m_entities r)
               (entity := (m_entities r entity)
                  \<lparr>m_id_or_next_empty := m_first_available_entity_slot r\<rparr>),
            m_first_available_entity_slot := entity\<rparr>)
      else
        (case free_slot_scan (m_entities r) entity (m_first_available_entity_slot r) of
           None \<Rightarrow> None
         | Some (Throws e) \<Rightarrow> Some (Throws e, r)
         | Some Undefined \<Rightarrow> Some (Undefined, r)
         | Some (Returns i) \<Rightarrow>
             if \<not> i < ECS_MAX_ENTITY_COUNT then Some (Throws out_of_range, r)
             else Some (Returns (),
               r\<lparr>m_entities := (m_entities r)
                    (entity := (m_entities r entity)
                       \<lparr>m_id_or_next_empty := m_id_or_next_empty (m_entities r i)\<rparr>)\<rparr>)))"

text \<open>
  Lines 130-133 of \<^verbatim>\<open>destroy_entity\<close>: the neighbours by index are relinked and the signature
  is reset. \<^verbatim>\<open>entity + 1\<close> and \<^verbatim>\<open>entity - 1\<close> are \<^verbatim>\<open>uint32_t\<close> arithmetic, so \<^verbatim>\<open>entity - 1\<close> wraps
  at 0 and the \<^verbatim>\<open>.at()\<close> throws. Nothing here touches \<^verbatim>\<open>m_view_entities\<close>.
\<close>

definition unlink_entity :: "Registry \<Rightarrow> nat \<Rightarrow> unit result \<times> Registry" where
  "unlink_entity r entity =
     (let after = uint32_t (entity + 1) in
      if \<not> after < ECS_MAX_ENTITY_COUNT then (Throws out_of_range, r)
      else
        let r1 = r\<lparr>m_entities := (m_entities r)
                   (after := (m_entities r after)
                      \<lparr>m_prev_valid_entity := m_prev_valid_entity (m_entities r entity)\<rparr>)\<rparr>;
            before = uint32_t (entity + 4294967296 - 1)
        in if \<not> before < ECS_MAX_ENTITY_COUNT then (Throws out_of_range, r1)
           else
             let r2 = r1\<lparr>m_entities := (m_entities r1)
                        (before := (m_entities r1 before)
                           \<lparr>m_next_valid_entity := m_next_valid_entity (m_entities r1 entity)\<rparr>)\<rparr>
             in (Returns (),
                 r2\<lparr>m_entity_signatures := (m_entity_signatures r2)(entity := 0)\<rparr>))"

text \<open>\<^verbatim>\<open>destroy_entity\<close> (lines 114-134).\<close>

definition destroy_entity :: "Registry \<Rightarrow> nat \<Rightarrow> (unit result \<times> Registry) option" where
  "destroy_entity r entity =
     (if \<not> entity < ECS_MAX_ENTITY_COUNT then Some (Throws out_of_range, r)
      else
        (case release_slot r entity of
           None \<Rightarrow> None
         | Some (Returns u, r1) \<Rightarrow> Some (unlink_entity r1 entity)
         | Some (Throws e, r1) \<Rightarrow> Some (Throws e, r1)
         | Some (Undefined, r1) \<Rightarrow> Some (Undefined, r1)))"

text \<open>
  The traversal of the live list, as the loop header of \<^verbatim>\<open>create_view\<close> (lines 152-153) does
  it: from index 0, following \<^verbatim>\<open>m_next_valid_entity\<close> while the index is below the capacity.
  The result is the list of indices visited.
\<close>

partial_function (option) live_traversal :: "(nat \<Rightarrow> Entity) \<Rightarrow> nat \<Rightarrow> nat list option" where
  "live_traversal slots entity =
     (if entity < ECS_MAX_ENTITY_COUNT
      then Option.bind (live_traversal slots (m_next_valid_entity (slots entity)))
             (\<lambda>rest. Some (entity # rest))
      else Some [])"

definition live_entities :: "Registry \<Rightarrow> nat list option" where
  "live_entities r = live_traversal (m_entities r) 0"

section \<open>Component storage\<close>

text \<open>
  Every \<^verbatim>\<open>ComponentArray<T>\<close> (lines 38-45) lives on the heap behind a \<^verbatim>\<open>std::unique_ptr\<close>. The
  heap is a list of cells: an address is an index, \<^verbatim>\<open>new\<close> appends a cell, \<^verbatim>\<open>delete\<close> empties
  one. A cell holds the \<^verbatim>\<open>std::vector<T> m_component_seq\<close> of one array.
\<close>

type_synonym 'v heap = "'v list option list"

definition heap_at :: "'v heap \<Rightarrow> nat \<Rightarrow> 'v list option" where
  "heap_at h a = (if a < length h then h ! a else None)"

definition heap_new :: "'v heap \<Rightarrow> 'v list \<Rightarrow> 'v heap \<times> nat" where
  "heap_new h m_component_seq = (h @ [Some m_component_seq], length h)"

fun heap_delete :: "'v heap \<Rightarrow> nat option \<Rightarrow> 'v heap" where
  "heap_delete h None = h"
| "heap_delete h (Some a) = h[a := None]"

text \<open>
  A template argument \<^verbatim>\<open>T\<close>: the registry uses \<^verbatim>\<open>typeid(T).hash_code()\<close> and, when it
  allocates a \<^verbatim>\<open>ComponentArray<T>\<close>, the value-initialised \<^verbatim>\<open>T\<close>.
\<close>

record 'v component_type =
  hash_code :: nat
  value_initialized :: 'v

text \<open>\<^verbatim>\<open>has_component_bit\<close> (lines 261-268) and \<^verbatim>\<open>get_component_bit\<close> (lines 280-287).\<close>

definition has_component_bit :: "Registry \<Rightarrow> 'v component_type \<Rightarrow> bool" where
  "has_component_bit r T =
     list_ex (\<lambda>bit. m_bit_to_component r bit = hash_code T) [0..<ECS_MAX_COMPONENT_COUNT]"

definition get_component_bit :: "Registry \<Rightarrow> 'v component_type \<Rightarrow> nat result" where
  "get_component_bit r T =
     (case find (\<lambda>bit. m_bit_to_component r bit = hash_code T) [0..<ECS_MAX_COMPONENT_COUNT] of
        Some index \<Rightarrow> Returns index
      | None \<Rightarrow> Throws (runtime_error ''Component bit queried on unregistered component.''))"

text \<open>
  \<^verbatim>\<open>create_component_bit\<close> (lines 270-277): the first bit whose binding is 0; when there is
  none the loop reaches \<^verbatim>\<open>.at(64)\<close>, which throws. The new array holds one value-initialised
  cell per entity index; assigning it to the \<^verbatim>\<open>unique_ptr\<close> deletes what that pointed to.
\<close>

definition create_component_bit ::
  "'v heap \<Rightarrow> Registry \<Rightarrow> 'v component_type \<Rightarrow> nat result \<times> 'v heap \<times> Registry" where
  "create_component_bit h r T =
     (case find (\<lambda>bit. m_bit_to_component r bit = 0) [0..<ECS_MAX_COMPONENT_COUNT] of
        None \<Rightarrow> (Throws out_of_range, h, r)
      | Some index \<Rightarrow>
          let r1 = r\<lparr>m_bit_to_component := (m_bit_to_component r)(index := hash_code T)\<rparr>;
              (h1, a) = heap_new h (replicate ECS_MAX_ENTITY_COUNT (value_initialized T));
              h2 = heap_delete h1 (m_component_arrays r1 index)
          in (Returns index, h2,
              r1\<lparr>m_component_arrays := (m_component_arrays r1)(index := Some a)\<rparr>))"

section \<open>View cache\<close>

text \<open>
  The operations of \<^verbatim>\<open>std::unordered_map\<close> that the source uses: \<^verbatim>\<open>insert\<close> keeps an existing
  entry, \<^verbatim>\<open>erase\<close> drops the key, and a reference obtained by \<^verbatim>\<open>at\<close> or while iterating
  changes the entry in place.
\<close>

definition umap_insert :: "'k \<Rightarrow> 'a \<Rightarrow> ('k \<times> 'a) list \<Rightarrow> ('k \<times> 'a) list" where
  "umap_insert k v m = (case map_of m k of None \<Rightarrow> m @ [(k, v)] | Some old \<Rightarrow> m)"

definition umap_erase :: "'k \<Rightarrow> ('k \<times> 'a) list \<Rightarrow> ('k \<times> 'a) list" where
  "umap_erase k m = filter (\<lambda>(k', v). k' \<noteq> k) m"

definition umap_modify :: "'k \<Rightarrow> ('a \<Rightarrow> 'a) \<Rightarrow> ('k \<times> 'a) list \<Rightarrow> ('k \<times> 'a) list" where
  "umap_modify k f m = map (\<lambda>(k', v). if k' = k then (k', f v) else (k', v)) m"

text \<open>
  The loop of \<^verbatim>\<open>on_entity_signature_change\<close> (lines 250-258) over \<^verbatim>\<open>m_view_entities\<close>. The
  flag is False when \<^verbatim>\<open>m_view_signatures.at(view)\<close> throws; the entries before that one have
  been updated by then.
\<close>

fun refresh_views ::
  "(nat \<times> signature) list \<Rightarrow> signature \<Rightarrow> nat \<Rightarrow> (nat \<times> nat set) list \<Rightarrow>
     bool \<times> (nat \<times> nat set) list" where
  "refresh_views view_signatures entity_signature entity [] = (True, [])"
| "refresh_views view_signatures entity_signature entity ((view, entities) # rest) =
     (case map_of view_signatures view of
        None \<Rightarrow> (False, (view, entities) # rest)
      | Some view_signature \<Rightarrow>
          let entities' =
                (if (entity_signature AND view_signature) = view_signature
                 then insert entity entities else entities - {entity});
              (ok, rest') = refresh_views view_signatures entity_signature entity rest
          in (ok, (view, entities') # rest'))"

definition on_entity_signature_change :: "Registry \<Rightarrow> nat \<Rightarrow> unit result \<times> Registry" where
  "on_entity_signature_change r entity =
     (if \<not> entity < ECS_MAX_ENTITY_COUNT then (Throws out_of_range, r)
      else
        let entity_signature = m_entity_signatures r entity;
            (ok, views) =
              refresh_views (m_view_signatures r) entity_signature entity (m_view_entities r)
        in (if ok then Returns () else Throws out_of_range, r\<lparr>m_view_entities := views\<rparr>))"

text \<open>
  \<^verbatim>\<open>set_component_bits\<close> (lines 290-302) for the template arguments in their order. The source
  needs at least one argument to compile.
\<close>

fun set_component_bits :: "Registry \<Rightarrow> 'v component_type list \<Rightarrow> signature \<Rightarrow> signature result" where
  "set_component_bits r [] signature = Returns signature"
| "set_component_bits r (T # Ts) signature =
     (case get_component_bit r T of
        Returns index \<Rightarrow> set_component_bits r Ts (set_bit index signature)
      | Throws e \<Rightarrow> Throws e
      | Undefined \<Rightarrow> Undefined)"

text \<open>
  \<^verbatim>\<open>create_view\<close> (lines 141-158). The scan of the live list changes neither the slot table
  nor the signatures, so the visited indices are computed first and the loop body is run over
  them.
\<close>

definition create_view :: "Registry \<Rightarrow> 'v component_type list \<Rightarrow> (nat result \<times> Registry) option" where
  "create_view r Ts =
     (case set_component_bits r Ts 0 of
        Throws e \<Rightarrow> Some (Throws e, r)
      | Undefined \<Rightarrow> Some (Undefined, r)
      | Returns signature \<Rightarrow>
          (case find (\<lambda>view_and_signature. signature = snd view_and_signature)
                  (m_view_signatures r) of
             Some view_and_signature \<Rightarrow> Some (Returns (fst view_and_signature), r)
           | None \<Rightarrow>
               let r1 = r\<lparr>m_view_signatures :=
                            umap_insert (m_view_count r) signature (m_view_signatures r),
                          m_view_entities :=
                            umap_insert (m_view_count r) {} (m_view_entities r)\<rparr>
               in (case live_traversal (m_entities r1) 0 of
                     None \<Rightarrow> None
                   | Some visited \<Rightarrow>
                       let views = fold (\<lambda>entity views.
                               if (m_entity_signatures r1 entity AND signature) = signature
                               then umap_modify (m_view_count r1) (insert entity) views
                               else views) visited (m_view_entities r1)
                       in Some (Returns (m_view_count r1),
                                r1\<lparr>m_view_entities := views,
                                   m_view_count := uint32_t (m_view_count r1 + 1)\<rparr>))))"

text \<open>\<^verbatim>\<open>destroy_view\<close> (lines 165-171) and \<^verbatim>\<open>get_entities\<close> (lines 231-233).\<close>

definition destroy_view :: "Registry \<Rightarrow> nat \<Rightarrow> unit result \<times> Registry" where
  "destroy_view r view =
     (case map_of (m_view_signatures r) view of
        None \<Rightarrow> (Throws (runtime_error ''Attempted to remove non-existent view.''), r)
      | Some s \<Rightarrow>
          (Returns (),
           r\<lparr>m_view_signatures := umap_erase view (m_view_signatures r),
             m_view_entities := umap_erase view (m_view_entities r)\<rparr>))"

definition get_entities :: "Registry \<Rightarrow> nat \<Rightarrow> nat set result" where
  "get_entities r view =
     (case map_of (m_view_entities r) view of
        None \<Rightarrow> Throws out_of_range
      | Some entities \<Rightarrow> Returns entities)"

section \<open>Components of an entity\<close>

text \<open>
  \<^verbatim>\<open>assign\<close> (lines 180-190). The count is incremented on every call, before the store; the
  \<^verbatim>\<open>static_cast\<close> of a null \<^verbatim>\<open>raw_ptr\<close> followed by a member access is undefined.
\<close>

definition assign ::
  "'v heap \<Rightarrow> Registry \<Rightarrow> 'v component_type \<Rightarrow> nat \<Rightarrow> 'v \<Rightarrow> unit result \<times> 'v heap \<times> Registry" where
  "assign h r T entity data =
     (case (if has_component_bit r T then (get_component_bit r T, h, r)
            else create_component_bit h r T) of
        (Throws e, h1, r1) \<Rightarrow> (Throws e, h1, r1)
      | (Undefined, h1, r1) \<Rightarrow> (Undefined, h1, r1)
      | (Returns index, h1, r1) \<Rightarrow>
          let r2 = r1\<lparr>m_components_assigned := (m_components_assigned r1)
                        (index := uint32_t (m_components_assigned r1 index + 1))\<rparr>
          in (case m_component_arrays r2 index of
                None \<Rightarrow> (Undefined, h1, r2)
              | Some raw_ptr \<Rightarrow>
                  (case heap_at h1 raw_ptr of
                     None \<Rightarrow> (Undefined, h1, r2)
                   | Some m_component_seq \<Rightarrow>
                       if \<not> entity < length m_component_seq then (Throws out_of_range, h1, r2)
                       else
                         let h2 = h1[raw_ptr := Some (m_component_seq[entity := data])]
                         in if \<not> entity < ECS_MAX_ENTITY_COUNT then (Throws out_of_range, h2, r2)
                            else
                              let r3 = r2\<lparr>m_entity_signatures := (m_entity_signatures r2)
                                           (entity := set_bit index (m_entity_signatures r2 entity))\<rparr>;
                                  (res, r4) = on_entity_signature_change r3 entity
                              in (res, h2, r4))))"

text \<open>
  \<^verbatim>\<open>remove\<close> (lines 199-211). Both checks come before the first write. The binding and the
  array are released when the decremented count is 0.
\<close>

definition remove ::
  "'v heap \<Rightarrow> Registry \<Rightarrow> 'v component_type \<Rightarrow> nat \<Rightarrow> unit result \<times> 'v heap \<times> Registry" where
  "remove h r T entity =
     (if \<not> has_component_bit r T
      then (Throws (runtime_error ''Attempted to remove unassigned component.''), h, r)
      else
        (case get_component_bit r T of
           Throws e \<Rightarrow> (Throws e, h, r)
         | Undefined \<Rightarrow> (Undefined, h, r)
         | Returns index \<Rightarrow>
             if \<not> entity < ECS_MAX_ENTITY_COUNT then (Throws out_of_range, h, r)
             else if \<not> bit (m_entity_signatures r entity) index
             then (Throws (runtime_error ''Attempted to remove unassigned component.''), h, r)
             else
               let count = uint32_t (m_components_assigned r index + 4294967296 - 1);
                   r1 = r\<lparr>m_components_assigned := (m_components_assigned r)(index := count)\<rparr>;
                   (h2, r2) =
                     (if count = 0
                      then (heap_delete h (m_component_arrays r1 index),
                            r1\<lparr>m_bit_to_component := (m_bit_to_component r1)(index := 0),
                               m_component_arrays := (m_component_arrays r1)(index := None)\<rparr>)
                      else (h, r1));
                   r3 = r2\<lparr>m_entity_signatures := (m_entity_signatures r2)
                              (entity := unset_bit index (m_entity_signatures r2 entity))\<rparr>;
                   (res, r4) = on_entity_signature_change r3 entity
               in (res, h2, r4)))"

text \<open>
  \<^verbatim>\<open>get\<close> (lines 220-223) returns a reference into the array: \<open>get_ref\<close> is the cell referred
  to (address and index), \<open>get\<close> the value read through it, \<open>put_ref\<close> a write through it.
  The entity's signature is not consulted.
\<close>

definition get_ref :: "'v heap \<Rightarrow> Registry \<Rightarrow> 'v component_type \<Rightarrow> nat \<Rightarrow> (nat \<times> nat) result" where
  "get_ref h r T entity =
     (case get_component_bit r T of
        Throws e \<Rightarrow> Throws e
      | Undefined \<Rightarrow> Undefined
      | Returns index \<Rightarrow>
          (case m_component_arrays r index of
             None \<Rightarrow> Undefined
           | Some raw_ptr \<Rightarrow>
               (case heap_at h raw_ptr of
                  None \<Rightarrow> Undefined
                | Some m_component_seq \<Rightarrow>
                    if entity < length m_component_seq then Returns (raw_ptr, entity)
                    else Throws out_of_range)))"

definition get :: "'v heap \<Rightarrow> Registry \<Rightarrow> 'v component_type \<Rightarrow> nat \<Rightarrow> 'v result" where
  "get h r T entity =
     (case get_ref h r T entity of
        Throws e \<Rightarrow> Throws e
      | Undefined \<Rightarrow> Undefined
      | Returns (raw_ptr, i) \<Rightarrow>
          (case heap_at h raw_ptr of
             None \<Rightarrow> Undefined
           | Some m_component_seq \<Rightarrow> Returns (m_component_seq ! i)))"

definition put_ref :: "'v heap \<Rightarrow> nat \<times> nat \<Rightarrow> 'v \<Rightarrow> 'v heap" where
  "put_ref h ref data =
     (case heap_at h (fst ref) of
        None \<Rightarrow> h
      | Some m_component_seq \<Rightarrow> h[fst ref := Some (m_component_seq[snd ref := data])])"

section \<open>Copy and move\<close>

text \<open>
  The loop of the copy constructor (lines 64-68): every non-null array of \<^verbatim>\<open>other\<close> is cloned
  by \<^verbatim>\<open>ComponentArray::copy\<close> (lines 41-43) into a new heap cell. The flag is False when a
  pointer of \<^verbatim>\<open>other\<close> does not point to an array. The pointers being assigned are null,
  the object being under construction.
\<close>

fun copy_arrays ::
  "'v heap \<Rightarrow> (nat \<Rightarrow> nat option) \<Rightarrow> nat list \<Rightarrow> (nat \<Rightarrow> nat option) \<Rightarrow>
     bool \<times> 'v heap \<times> (nat \<Rightarrow> nat option)" where
  "copy_arrays h other [] mine = (True, h, mine)"
| "copy_arrays h other (i # bits) mine =
     (case other i of
        None \<Rightarrow> copy_arrays h other bits mine
      | Some raw_ptr \<Rightarrow>
          (case heap_at h raw_ptr of
             None \<Rightarrow> (False, h, mine)
           | Some m_component_seq \<Rightarrow>
               let (h1, a) = heap_new h m_component_seq
               in copy_arrays h1 other bits (mine(i := Some a))))"

text \<open>
  \<^verbatim>\<open>Registry(const Registry&)\<close> (lines 56-69). Seven members are copied and the arrays are
  cloned; \<^verbatim>\<open>m_components_assigned\<close> is not mentioned, so it keeps its initialiser.
\<close>

definition Registry_copy :: "'v heap \<Rightarrow> Registry \<Rightarrow> Registry result \<times> 'v heap" where
  "Registry_copy h other =
     (let this = Registry_members
            \<lparr>m_entities := m_entities other,
             m_first_available_entity_slot := m_first_available_entity_slot other,
             m_view_count := m_view_count other,
             m_entity_signatures := m_entity_signatures other,
             m_view_entities := m_view_entities other,
             m_view_signatures := m_view_signatures other,
             m_bit_to_component := m_bit_to_component other\<rparr>;
          (ok, h1, arrays) =
            copy_arrays h (m_component_arrays other) [0..<ECS_MAX_COMPONENT_COUNT]
              (m_component_arrays this)
      in (if ok then Returns (this\<lparr>m_component_arrays := arrays\<rparr>) else Undefined, h1))"

text \<open>
  \<^verbatim>\<open>operator=(Registry&&)\<close> (lines 75-84) swaps seven members; the result is the pair of
  \<^verbatim>\<open>*this\<close> and \<^verbatim>\<open>other\<close> afterwards. \<^verbatim>\<open>m_components_assigned\<close> and \<^verbatim>\<open>m_component_arrays\<close> are
  not swapped.
\<close>

definition move_assign :: "Registry \<Rightarrow> Registry \<Rightarrow> Registry \<times> Registry" where
  "move_assign this other =
     (this\<lparr>m_entities := m_entities other,
            m_first_available_entity_slot := m_first_available_entity_slot other,
            m_view_count := m_view_count other,
            m_entity_signatures := m_entity_signatures other,
            m_view_entities := m_view_entities other,
            m_view_signatures := m_view_signatures other,
            m_bit_to_component := m_bit_to_component other\<rparr>,
      other\<lparr>m_entities := m_entities this,
             m_first_available_entity_slot := m_first_available_entity_slot this,
             m_view_count := m_view_count this,
             m_entity_signatures := m_entity_signatures this,
             m_view_entities := m_view_entities this,
             m_view_signatures := m_view_signatures this,
             m_bit_to_component := m_bit_to_component this\<rparr>)"

text \<open>\<^verbatim>\<open>~Registry()\<close> (line 54): the unique pointers delete their arrays.\<close>

definition Registry_dtor :: "'v heap \<Rightarrow> Registry \<Rightarrow> 'v heap" where
  "Registry_dtor h r =
     fold (\<lambda>bit h. heap_delete h (m_component_arrays r bit)) [0..<ECS_MAX_COMPONENT_COUNT] h"

text \<open>
  \<^verbatim>\<open>operator=(const Registry&)\<close> (line 73): a temporary copy of \<^verbatim>\<open>other\<close> is move-assigned to
  \<^verbatim>\<open>*this\<close> and then destroyed.
\<close>

definition copy_assign :: "'v heap \<Rightarrow> Registry \<Rightarrow> Registry \<Rightarrow> Registry result \<times> 'v heap" where
  "copy_assign h this other =
     (case Registry_copy h other of
        (Returns temporary, h1) \<Rightarrow>
          let (this', temporary') = move_assign this temporary
          in (Returns this', Registry_dtor h1 temporary')
      | (Throws e, h1) \<Rightarrow> (Throws e, h1)
      | (Undefined, h1) \<Rightarrow> (Undefined, h1))"

text \<open>
  \<^verbatim>\<open>Registry(Registry&&)\<close> (line 71): in the body \<^verbatim>\<open>other\<close> is an lvalue, so \<^verbatim>\<open>*this = other\<close> is
  the copy assignment, applied to the members as their initialisers leave them.
\<close>

definition Registry_move :: "'v heap \<Rightarrow> Registry \<Rightarrow> Registry result \<times> 'v heap" where
  "Registry_move h other = copy_assign h Registry_members other"

section \<open>Sequences of calls\<close>

text \<open>
  Calling code drives a registry through its public member functions, as \<^verbatim>\<open>main\<close> in
  \<^verbatim>\<open>example.cpp\<close> does. A script is a list of such calls; it runs as long as every call
  returns, and collects the ids that \<^verbatim>\<open>create_entity\<close> and \<^verbatim>\<open>create_view\<close> return.
\<close>

datatype 'v api_call =
    Create_entity
  | Destroy_entity nat
  | Create_view "'v component_type list"
  | Destroy_view nat
  | Assign "'v component_type" nat 'v
  | Remove "'v component_type" nat

fun perform :: "'v heap \<times> Registry \<Rightarrow> 'v api_call \<Rightarrow> (nat list \<times> 'v heap \<times> Registry) option" where
  "perform (h, r) Create_entity =
     (case create_entity r of (Returns e, r') \<Rightarrow> Some ([e], h, r') | other \<Rightarrow> None)"
| "perform (h, r) (Destroy_entity e) =
     (case destroy_entity r e of Some (Returns u, r') \<Rightarrow> Some ([], h, r') | other \<Rightarrow> None)"
| "perform (h, r) (Create_view Ts) =
     (case create_view r Ts of Some (Returns v, r') \<Rightarrow> Some ([v], h, r') | other \<Rightarrow> None)"
| "perform (h, r) (Destroy_view v) =
     (case destroy_view r v of (Returns u, r') \<Rightarrow> Some ([], h, r') | other \<Rightarrow> None)"
| "perform (h, r) (Assign T e d) =
     (case assign h r T e d of (Returns u, h', r') \<Rightarrow> Some ([], h', r') | other \<Rightarrow> None)"
| "perform (h, r) (Remove T e) =
     (case remove h r T e of (Returns u, h', r') \<Rightarrow> Some ([], h', r') | other \<Rightarrow> None)"

fun run :: "'v heap \<times> Registry \<Rightarrow> 'v api_call list \<Rightarrow> (nat list \<times> 'v heap \<times> Registry) option" where
  "run s [] = Some ([], s)"
| "run s (c # cs) =
     do { (ids, s') \<leftarrow> perform s c; (ids', s'') \<leftarrow> run s' cs; Some (ids @ ids', s'') }"

text \<open>A copy-constructed registry, with the heap that holds its arrays.\<close>

definition copy_of :: "'v heap \<times> Registry \<Rightarrow> ('v heap \<times> Registry) option" where
  "copy_of s =
     (case Registry_copy (fst s) (snd s) of
        (Returns c, h1) \<Rightarrow> Some (h1, c)
      | other \<Rightarrow> None)"

text \<open>
  The entity ids that a script leaves live, in the words of the specification: those whose
  most recent operation was create and which have not since been destroyed. The second
  argument is the list of ids that the calls returned.
\<close>

fun live_ids :: "'v api_call list \<Rightarrow> nat list \<Rightarrow> nat set \<Rightarrow> nat set" where
  "live_ids [] ids live = live"
| "live_ids (Create_entity # cs) (e # ids) live = live_ids cs ids (insert e live)"
| "live_ids (Destroy_entity e # cs) ids live = live_ids cs ids (live - {e})"
| "live_ids (Create_view Ts # cs) (v # ids) live = live_ids cs ids live"
| "live_ids (c # cs) ids live = live_ids cs ids live"

text \<open>
  An entity's signature includes a component type, in the words of the specification: some
  bit bound to the type is set in the signature.
\<close>

definition signature_includes :: "Registry \<Rightarrow> 'v component_type \<Rightarrow> nat \<Rightarrow> bool" where
  "signature_includes r T entity =
     list_ex (\<lambda>index. m_bit_to_component r index = hash_code T \<and>
                       bit (m_entity_signatures r entity) index)
       [0..<ECS_MAX_COMPONENT_COUNT]"

text \<open>The two component types of \<^verbatim>\<open>example.cpp\<close>, with pairs of integers as values.\<close>

definition Position :: "(int \<times> int) component_type" where
  "Position = \<lparr>hash_code = 1001, value_initialized = (0, 0)\<rparr>"

definition Velocity :: "(int \<times> int) component_type" where
  "Velocity = \<lparr>hash_code = 1002, value_initialized = (0, 0)\<rparr>"

text \<open>
  A registry in use: two entities, entity 0 with a position, entity 1 with a velocity.
\<close>

definition two_entities :: "(int \<times> int) heap \<times> Registry" where
  "two_entities =
     (case run ([], Registry_ctor)
             [Create_entity, Create_entity, Assign Position 0 (1, 2), Assign Velocity 1 (3, 4)] of
        Some (ids, s) \<Rightarrow> s
      | None \<Rightarrow> ([], Registry_ctor))"

text \<open>
  What \<^verbatim>\<open>std::unique_ptr\<close> guarantees of the pointers a registry holds: each non-null one
  points to an array in the heap.
\<close>

definition owns_arrays :: "'v heap \<Rightarrow> Registry \<Rightarrow> bool" where
  "owns_arrays h r =
     list_all (\<lambda>index. case m_component_arrays r index of
                          None \<Rightarrow> True
                        | Some raw_ptr \<Rightarrow> heap_at h raw_ptr \<noteq> None)
       [0..<ECS_MAX_COMPONENT_COUNT]"

text \<open>And no two of them point to the same array.\<close>

definition unshared_arrays :: "Registry \<Rightarrow> bool" where
  "unshared_arrays r =
     list_all (\<lambda>i. list_all (\<lambda>j. m_component_arrays r i = None \<or> i = j \<or>
                                     m_component_arrays r i \<noteq> m_component_arrays r j)
                        [0..<ECS_MAX_COMPONENT_COUNT])
       [0..<ECS_MAX_COMPONENT_COUNT]"

text \<open>The copy of \<open>two_entities\<close>, in the heap that holds the arrays of both.\<close>

definition two_entities_copy :: "(int \<times> int) heap \<times> Registry" where
  "two_entities_copy = (case copy_of two_entities of Some s \<Rightarrow> s | None \<Rightarrow> two_entities)"

text \<open>
  Every cached view agrees with the signature of one entity: the entity is a member exactly
  when its signature is a superset of the view's.
\<close>

definition views_agree_on :: "Registry \<Rightarrow> nat \<Rightarrow> bool" where
  "views_agree_on r entity =
     list_all (\<lambda>(view, entities).
         case map_of (m_view_signatures r) view of
           None \<Rightarrow> False
         | Some view_signature \<Rightarrow>
             (entity \<in> entities) =
             ((m_entity_signatures r entity AND view_signature) = view_signature))
       (m_view_entities r)"

text \<open>Scripts that the theorems below run on a fresh registry.\<close>

definition view_then_destroy :: "(int \<times> int) api_call list" where
  "view_then_destroy =
     [Create_entity, Create_entity, Assign Position 1 (1, 2), Create_view [Position],
      Destroy_entity 1]"

definition recycle_then_view :: "(int \<times> int) api_call list" where
  "recycle_then_view =
     [Create_entity, Create_entity, Create_entity, Destroy_entity 1, Destroy_entity 2,
      Create_entity, Create_entity, Assign Position 3 (1, 2), Create_view [Position]]"

definition create_three_destroy_two :: "(int \<times> int) api_call list" where
  "create_three_destroy_two =
     [Create_entity, Create_entity, Create_entity, Destroy_entity 1, Destroy_entity 2]"

section \<open>Evaluation\<close>

lemma component_bits:
  "[0..<ECS_MAX_COMPONENT_COUNT] = 0 # Suc 0 # [2..<ECS_MAX_COMPONENT_COUNT]"
  by (simp add: upt_conv_Cons)

lemmas evaluate =
  component_bits uint32_t_def uint16_t_def Let_def
  Entity_default_def Registry_members_def Registry_ctor_def
  create_entity_def free_slot_scan.simps release_slot_def unlink_entity_def destroy_entity_def
  live_traversal.simps live_entities_def
  heap_at_def heap_new_def has_component_bit_def get_component_bit_def create_component_bit_def
  umap_insert_def umap_erase_def umap_modify_def on_entity_signature_change_def
  create_view_def destroy_view_def get_entities_def
  assign_def remove_def get_ref_def get_def put_ref_def
  Registry_copy_def move_assign_def Registry_dtor_def copy_assign_def Registry_move_def
  copy_of_def signature_includes_def Position_def Velocity_def
  set_bit_eq_or unset_bit_eq_and_not

section \<open>Component bits\<close>

lemma get_component_bit_cases:
  "get_component_bit r T =
     Throws (runtime_error ''Component bit queried on unregistered component.'') \<and>
     (\<forall>index<ECS_MAX_COMPONENT_COUNT. m_bit_to_component r index \<noteq> hash_code T)
   \<or> (\<exists>index<ECS_MAX_COMPONENT_COUNT. get_component_bit r T = Returns index \<and>
         m_bit_to_component r index = hash_code T \<and>
         (\<forall>j<index. m_bit_to_component r j \<noteq> hash_code T))"
proof (cases "find (\<lambda>bit. m_bit_to_component r bit = hash_code T) [0..<ECS_MAX_COMPONENT_COUNT]")
  case None
  have "get_component_bit r T =
          Throws (runtime_error ''Component bit queried on unregistered component.'')"
    by (simp add: get_component_bit_def None)
  moreover from None
  have "\<forall>index<ECS_MAX_COMPONENT_COUNT. m_bit_to_component r index \<noteq> hash_code T"
    by (auto simp: find_None_iff)
  ultimately show ?thesis by blast
next
  case (Some index)
  have "get_component_bit r T = Returns index"
    by (simp add: get_component_bit_def Some)
  moreover from Some
  have "index < ECS_MAX_COMPONENT_COUNT \<and> m_bit_to_component r index = hash_code T \<and>
      (\<forall>j<index. m_bit_to_component r j \<noteq> hash_code T)"
    by (auto simp: find_Some_iff)
  ultimately show ?thesis by blast
qed

lemma has_component_bit_iff:
  "has_component_bit r T \<longleftrightarrow>
     (\<exists>index<ECS_MAX_COMPONENT_COUNT. m_bit_to_component r index = hash_code T)"
  by (auto simp: has_component_bit_def list_ex_iff)

lemma signature_includes_iff:
  "signature_includes r T entity \<longleftrightarrow>
     (\<exists>index<ECS_MAX_COMPONENT_COUNT. m_bit_to_component r index = hash_code T \<and>
        bit (m_entity_signatures r entity) index)"
  by (auto simp: signature_includes_def list_ex_iff)

section \<open>Removing a component that the entity does not have\<close>

text \<open>
  C6. For an entity (an index below the capacity) whose signature does not include the
  component type \<open>T\<close>, \<^verbatim>\<open>remove<T>\<close> throws the \<^verbatim>\<open>std::runtime_error\<close> of the source's own
  check, and the heap and the registry at the throw are the ones the call started with: the
  signature, the reference counts, the bindings and the view memberships are all unchanged.
\<close>

theorem remove_absent_component:
  assumes "entity < ECS_MAX_ENTITY_COUNT" and "\<not> signature_includes r T entity"
  shows "remove h r T entity =
           (Throws (runtime_error ''Attempted to remove unassigned component.''), h, r) \<and>
         InvalidHandle_class (fst (remove h r T entity))"
proof (cases "has_component_bit r T")
  case False
  then show ?thesis by (simp add: remove_def)
next
  case True
  then obtain index where i: "index < ECS_MAX_COMPONENT_COUNT"
      "get_component_bit r T = Returns index" "m_bit_to_component r index = hash_code T"
    using get_component_bit_cases [of r T] by (auto simp: has_component_bit_iff)
  with assms(2) have "\<not> bit (m_entity_signatures r entity) index"
    by (auto simp: signature_includes_iff)
  with True i assms(1) show ?thesis by (simp add: remove_def)
qed

theorem remove_absent_component_witness:
  "0 < ECS_MAX_ENTITY_COUNT \<and> has_component_bit (snd two_entities) Velocity \<and>
   \<not> signature_includes (snd two_entities) Velocity 0 \<and>
   remove (fst two_entities) (snd two_entities) Velocity 0 =
     (Throws (runtime_error ''Attempted to remove unassigned component.''), two_entities)"
proof -
  have absent: "\<not> signature_includes (snd two_entities) Velocity 0"
    by (simp add: two_entities_def evaluate)
  have bound: "has_component_bit (snd two_entities) Velocity"
    by (simp add: two_entities_def evaluate)
  from remove_absent_component [OF _ absent, of "fst two_entities"] absent bound
  show ?thesis by simp
qed

section \<open>Where the registry departs from its specification\<close>

text \<open>
  C1. After every mutation of an entity's component set, \<^verbatim>\<open>destroy_entity\<close> included, an id is
  in a view's cached set exactly when the entity is live and its signature is a superset of
  the view's. \<^verbatim>\<open>destroy_entity\<close> resets the signature and never calls
  \<^verbatim>\<open>on_entity_signature_change\<close>, as \<^verbatim>\<open>assign\<close> and \<^verbatim>\<open>remove\<close> do: with entity 1 holding a
  position and a view over positions (handle 0, signature bit 0), destroying entity 1 leaves
  it in the view's set, its signature being empty.
\<close>

theorem destroy_entity_keeps_view_member:
  "do { (ids, h, r) \<leftarrow> run ([], Registry_ctor) view_then_destroy;
        Some (ids, live_ids view_then_destroy ids {}, get_entities r 0,
              map_of (m_view_signatures r) 0, m_entity_signatures r 1) } =
   Some ([0, 1, 0], {0}, Returns {1}, Some 1, 0)"
  by (auto simp add: view_then_destroy_def evaluate)

text \<open>
  C2. Creating a view over the same component types twice returns the same handle, and the
  view's members are exactly the live entities whose signature is a superset of the view's.
  The scan of \<^verbatim>\<open>create_view\<close> follows \<^verbatim>\<open>m_next_valid_entity\<close>, which \<^verbatim>\<open>create_entity\<close> and
  \<^verbatim>\<open>destroy_entity\<close> do not keep right: after three entities are created, entities 1 and 2
  destroyed and two more created (ids 1 and 3), entity 3 is live and holds a position, yet
  the new view over positions is empty. The second call returns the same handle.
\<close>

theorem create_view_misses_live_entity:
  "do { (ids, h, r) \<leftarrow> run ([], Registry_ctor) recycle_then_view;
        Some (ids, live_ids recycle_then_view ids {}, signature_includes r Position 3,
              get_entities r 0, map_option fst (create_view r [Position])) } =
   Some ([0, 1, 2, 1, 3, 0], {0, 1, 3}, True, Returns {}, Some (Returns 0))"
  by (auto simp add: recycle_then_view_def evaluate)

text \<open>
  C3. For every sequence of \<^verbatim>\<open>create_entity\<close> and \<^verbatim>\<open>destroy_entity\<close> calls, destroying live
  ids only, the traversal of the live list visits exactly the ids created and not since
  destroyed. \<^verbatim>\<open>destroy_entity\<close> relinks the slots at \<^verbatim>\<open>entity - 1\<close> and \<^verbatim>\<open>entity + 1\<close>, which need
  not be the live neighbours: after entities 0, 1, 2 are created and 1, then 2, destroyed,
  only entity 0 is live and the traversal visits 0 and 2.
\<close>

theorem live_list_keeps_destroyed_entity:
  "do { (ids, h, r) \<leftarrow> run ([], Registry_ctor) create_three_destroy_two;
        Some (ids, live_ids create_three_destroy_two ids {}, live_entities r) } =
   Some ([0, 1, 2], {0}, Some [0, 2])"
  by (auto simp add: create_three_destroy_two_def evaluate)

text \<open>
  C5. After \<^verbatim>\<open>remove<T>(e)\<close>, \<^verbatim>\<open>get<T>(e)\<close> fails. \<^verbatim>\<open>get\<close> asks only whether the type is bound,
  where \<^verbatim>\<open>remove\<close> also tests the entity's signature bit: with two entities holding a
  position, removing it from entity 0 clears the bit, and \<^verbatim>\<open>get\<close> still returns the cell.
\<close>

theorem get_after_remove_returns_stale_cell:
  "do { (ids, h, r) \<leftarrow> run ([], Registry_ctor)
          [Create_entity, Create_entity, Assign Position 0 (1, 2), Assign Position 1 (3, 4),
           Remove Position 0];
        Some (ids, signature_includes r Position 0, get h r Position 0) } =
   Some ([0, 1], False, Returns (1, 2))"
  by (simp add: evaluate)

text \<open>
  C7. Assigning a component that the entity already holds overwrites the value and changes
  nothing else, the reference count in particular. \<^verbatim>\<open>assign\<close> increments the count on every
  call: the second assignment to entity 0 stores the new value, leaves the signature as it
  was, and takes the count of bit 0 from 1 to 2.
\<close>

theorem reassign_increments_count:
  "do { (ids, h, r) \<leftarrow> run ([], Registry_ctor) [Create_entity, Assign Position 0 (1, 2)];
        (ids', h', r') \<leftarrow> run (h, r) [Assign Position 0 (5, 6)];
        Some (ids, signature_includes r Position 0, get_component_bit r Position,
              m_components_assigned r 0, m_components_assigned r' 0,
              m_entity_signatures r' 0 = m_entity_signatures r 0, get h' r' Position 0) } =
   Some ([0], True, Returns 0, 1, 2, True, Returns (5, 6))"
  by (simp add: evaluate)

text \<open>
  C9. Moving a registry transfers all of its state, the component values readable by \<^verbatim>\<open>get\<close>
  included, without cloning any array. The move assignment swaps seven members and leaves
  \<^verbatim>\<open>m_component_arrays\<close> where it was: moved into a fresh registry, the target has the
  binding of bit 0 and a null array, so \<^verbatim>\<open>get\<close> dereferences a null pointer, and the array
  stays with the source. The move constructor goes through the copy assignment: it clones
  the array (the heap grows by a cell) and its target has no array either.
\<close>

theorem moved_registry_has_no_storage:
  "do { (ids, h, r) \<leftarrow> run ([], Registry_ctor) [Create_entity, Assign Position 0 (1, 2)];
        Some (get h r Position 0,
              get h (fst (move_assign Registry_ctor r)) Position 0,
              m_component_arrays (fst (move_assign Registry_ctor r)) 0,
              m_component_arrays (snd (move_assign Registry_ctor r)) 0,
              length h,
              case Registry_move h r of
                (Returns target, h') \<Rightarrow> Some (get h' target Position 0, length h')
              | other \<Rightarrow> None) } =
   Some (Returns (1, 2), Undefined, None, Some 0, 1, Some (Undefined, 2))"
  by (simp add: evaluate)

text \<open>
  C8. Every copy of a registry is an independent instance: a component of the copy can be
  changed, by \<^verbatim>\<open>assign\<close> or through the reference that \<^verbatim>\<open>get\<close> returns, and the original
  keeps its value, and the other way round. A registry is copied by the copy constructor and
  by the copy assignment. The copy assignment (line 73) move-assigns a temporary copy, and
  the move assignment leaves \<^verbatim>\<open>m_component_arrays\<close> where it was. Assigned to a fresh
  registry, the copy has the signature and the binding of the original and a null array:
  \<^verbatim>\<open>get\<close> and \<^verbatim>\<open>assign\<close> on it dereference a null pointer, so its component cannot be changed
  at all. Assigned to a registry with a position of its own, the copy reads that old
  position and not the original's.
\<close>

theorem copy_assigned_registry_has_no_storage:
  "do { (ids, h, r) \<leftarrow> run ([], Registry_ctor) [Create_entity, Assign Position 0 (1, 2)];
        (ids', h1, target) \<leftarrow> run (h, Registry_ctor) [Create_entity, Assign Position 0 (5, 5)];
        Some (get h r Position 0,
              case copy_assign h Registry_ctor r of
                (Returns copy, h') \<Rightarrow>
                  Some (signature_includes copy Position 0, m_component_arrays copy 0,
                        get h' copy Position 0, get_ref h' copy Position 0,
                        fst (assign h' copy Position 0 (7, 8)))
              | other \<Rightarrow> None,
              case copy_assign h1 target r of
                (Returns copy, h') \<Rightarrow> Some (get h' copy Position 0, get h' r Position 0)
              | other \<Rightarrow> None) } =
   Some (Returns (1, 2),
         Some (True, None, Undefined, Undefined, Undefined),
         Some (Returns (5, 5), Returns (1, 2)))"
  by (simp add: evaluate)

section \<open>The heap of component arrays\<close>

lemma heap_at_append_old: "a < length h \<Longrightarrow> heap_at (h @ ys) a = heap_at h a"
  by (simp add: heap_at_def nth_append)

lemma heap_at_Some_less: "heap_at h a = Some xs \<Longrightarrow> a < length h"
  by (simp add: heap_at_def split: if_splits)

lemma heap_at_update_other: "a \<noteq> p \<Longrightarrow> heap_at (h[p := x]) a = heap_at h a"
  by (simp add: heap_at_def)

lemma heap_at_delete_other: "q \<noteq> Some a \<Longrightarrow> heap_at (heap_delete h q) a = heap_at h a"
  by (cases q) (simp_all add: heap_at_update_other)

lemma copy_arrays_clones:
  assumes "copy_arrays h other bits mine = (ok, h1, arrays)"
      and "\<forall>i\<in>set bits. \<forall>p. other i = Some p \<longrightarrow> heap_at h p \<noteq> None"
  shows "ok \<and> (\<exists>ys. h1 = h @ ys) \<and>
         (\<forall>i. i \<notin> set bits \<or> other i = None \<longrightarrow> arrays i = mine i) \<and>
         (\<forall>i\<in>set bits. \<forall>p. other i = Some p \<longrightarrow>
            (\<exists>p'. arrays i = Some p' \<and> length h \<le> p' \<and> p' < length h1 \<and>
                  heap_at h1 p' = heap_at h p))"
  using assms
proof (induction bits arbitrary: h mine)
  case Nil
  then show ?case by simp
next
  case (Cons i bits)
  show ?case
  proof (cases "other i")
    case None
    with Cons.prems have rec: "copy_arrays h other bits mine = (ok, h1, arrays)"
      by simp
    from Cons.prems(2) have valid: "\<forall>i\<in>set bits. \<forall>p. other i = Some p \<longrightarrow> heap_at h p \<noteq> None"
      by simp
    from Cons.IH [OF rec valid] None show ?thesis
      by auto
  next
    case (Some raw_ptr)
    with Cons.prems(2) obtain seq where seq: "heap_at h raw_ptr = Some seq"
      by auto
    let ?h = "h @ [Some seq]"
    let ?mine = "mine(i := Some (length h))"
    from Cons.prems(1) Some seq
    have rec: "copy_arrays ?h other bits ?mine = (ok, h1, arrays)"
      by (simp add: heap_new_def)
    have old: "heap_at ?h p = heap_at h p" if "heap_at h p \<noteq> None" for p
      using that heap_at_Some_less [of h p] by (auto simp: heap_at_append_old)
    have valid: "\<forall>i\<in>set bits. \<forall>p. other i = Some p \<longrightarrow> heap_at ?h p \<noteq> None"
      using Cons.prems(2) old by auto
    note IH = Cons.IH [OF rec valid]
    from IH obtain ys where ys: "h1 = ?h @ ys" by blast
    have fresh: "heap_at h1 (length h) = Some seq"
      using ys by (simp add: heap_at_def nth_append)
    have "ok" using IH by blast
    moreover have "\<exists>ys. h1 = h @ ys" using ys by simp
    moreover have "\<forall>j. j \<notin> set (i # bits) \<or> other j = None \<longrightarrow> arrays j = mine j"
      using IH Some by auto
    moreover have "\<forall>j\<in>set (i # bits). \<forall>p. other j = Some p \<longrightarrow>
            (\<exists>p'. arrays j = Some p' \<and> length h \<le> p' \<and> p' < length h1 \<and>
                  heap_at h1 p' = heap_at h p)"
    proof (intro ballI allI impI)
      fix j p
      assume j: "j \<in> set (i # bits)" and p: "other j = Some p"
      from Cons.prems(2) j p have pv: "heap_at h p \<noteq> None" by blast
      show "\<exists>p'. arrays j = Some p' \<and> length h \<le> p' \<and> p' < length h1 \<and>
                  heap_at h1 p' = heap_at h p"
      proof (cases "j \<in> set bits")
        case True
        with IH p obtain p' where "arrays j = Some p'" "length ?h \<le> p'" "p' < length h1"
            "heap_at h1 p' = heap_at ?h p"
          by blast
        with old [OF pv] show ?thesis by auto
      next
        case False
        with j have ji: "j = i" by simp
        with False IH have "arrays j = ?mine j" by blast
        with ji have "arrays j = Some (length h)" by simp
        moreover from ji p Some have "p = raw_ptr" by simp
        moreover have "length h < length h1" using ys by simp
        ultimately show ?thesis using fresh seq by auto
      qed
    qed
    ultimately show ?thesis by blast
  qed
qed

section \<open>What a call can change in the heap\<close>

lemma get_eq:
  "get h r T e =
     (case get_component_bit r T of
        Throws x \<Rightarrow> Throws x
      | Undefined \<Rightarrow> Undefined
      | Returns index \<Rightarrow>
          (case m_component_arrays r index of
             None \<Rightarrow> Undefined
           | Some p \<Rightarrow>
               (case heap_at h p of
                  None \<Rightarrow> Undefined
                | Some seq \<Rightarrow> if e < length seq then Returns (seq ! e) else Throws out_of_range)))"
  by (simp add: get_def get_ref_def split: result.splits option.splits)

lemma get_component_bit_cong:
  "m_bit_to_component r' = m_bit_to_component r \<Longrightarrow> get_component_bit r' T = get_component_bit r T"
  by (simp add: get_component_bit_def)

lemma get_cong:
  assumes "m_bit_to_component r' = m_bit_to_component r"
      and "\<And>index. index < ECS_MAX_COMPONENT_COUNT \<Longrightarrow>
             (m_component_arrays r' index = None \<and> m_component_arrays r index = None) \<or>
             (\<exists>p' p. m_component_arrays r' index = Some p' \<and> m_component_arrays r index = Some p \<and>
                     heap_at h' p' = heap_at h p)"
  shows "get h' r' T e = get h r T e"
proof -
  note bit = get_component_bit_cong [OF assms(1), of T]
  from get_component_bit_cases [of r T] show ?thesis
  proof
    assume "get_component_bit r T =
        Throws (runtime_error ''Component bit queried on unregistered component.'') \<and>
        (\<forall>index<ECS_MAX_COMPONENT_COUNT. m_bit_to_component r index \<noteq> hash_code T)"
    with bit show ?thesis by (simp add: get_eq)
  next
    assume "\<exists>index<ECS_MAX_COMPONENT_COUNT. get_component_bit r T = Returns index \<and>
         m_bit_to_component r index = hash_code T \<and>
         (\<forall>j<index. m_bit_to_component r j \<noteq> hash_code T)"
    then obtain index where i: "index < ECS_MAX_COMPONENT_COUNT" "get_component_bit r T = Returns index"
      by blast
    from assms(2) [OF i(1)] i(2) bit show ?thesis
      by (auto simp: get_eq)
  qed
qed

lemma create_component_bit_frame:
  assumes "create_component_bit h r T = (res, h1, r1)"
      and "\<forall>index<ECS_MAX_COMPONENT_COUNT. m_component_arrays r index \<noteq> Some a"
      and "a < length h"
  shows "heap_at h1 a = heap_at h a \<and> a < length h1 \<and>
         (\<forall>index<ECS_MAX_COMPONENT_COUNT. m_component_arrays r1 index \<noteq> Some a) \<and>
         (\<forall>index. res = Returns index \<longrightarrow> index < ECS_MAX_COMPONENT_COUNT)"
proof (cases "find (\<lambda>bit. m_bit_to_component r bit = 0) [0..<ECS_MAX_COMPONENT_COUNT]")
  case None
  with assms show ?thesis by (auto simp: create_component_bit_def)
next
  case (Some index)
  then have i: "index < ECS_MAX_COMPONENT_COUNT" by (auto simp: find_Some_iff)
  with assms(2) have q: "m_component_arrays r index \<noteq> Some a" by blast
  from assms(1) Some have res: "res = Returns index"
    and h1: "h1 = heap_delete (h @ [Some (replicate ECS_MAX_ENTITY_COUNT (value_initialized T))])
                    (m_component_arrays r index)"
    and r1: "m_component_arrays r1 = (m_component_arrays r)(index := Some (length h))"
    by (auto simp: create_component_bit_def heap_new_def Let_def)
  have "heap_at h1 a = heap_at h a"
    using q assms(3) by (simp add: h1 heap_at_delete_other heap_at_append_old)
  moreover have "a < length h1"
    using assms(3) by (cases "m_component_arrays r index") (simp_all add: h1)
  moreover have "\<forall>j<ECS_MAX_COMPONENT_COUNT. m_component_arrays r1 j \<noteq> Some a"
    using assms(2,3) by (auto simp: r1)
  ultimately show ?thesis using res i by simp
qed

lemma assign_frame:
  assumes "assign h r T e v = (res, h', r')"
      and "\<forall>index<ECS_MAX_COMPONENT_COUNT. m_component_arrays r index \<noteq> Some a"
      and "a < length h"
  shows "heap_at h' a = heap_at h a"
proof -
  obtain res1 h1 r1 where bit:
    "(if has_component_bit r T then (get_component_bit r T, h, r)
      else create_component_bit h r T) = (res1, h1, r1)"
    by (cases "if has_component_bit r T then (get_component_bit r T, h, r)
      else create_component_bit h r T") auto
  have 1: "heap_at h1 a = heap_at h a \<and> a < length h1 \<and>
         (\<forall>index<ECS_MAX_COMPONENT_COUNT. m_component_arrays r1 index \<noteq> Some a) \<and>
         (\<forall>index. res1 = Returns index \<longrightarrow> index < ECS_MAX_COMPONENT_COUNT)"
  proof (cases "has_component_bit r T")
    case True
    with bit have "res1 = get_component_bit r T" "h1 = h" "r1 = r" by auto
    with assms(2,3) get_component_bit_cases [of r T] show ?thesis by auto
  next
    case False
    with bit have "create_component_bit h r T = (res1, h1, r1)" by simp
    from create_component_bit_frame [OF this assms(2,3)] show ?thesis .
  qed
  show ?thesis
  proof (cases res1)
    case (Returns index)
    with 1 have i: "index < ECS_MAX_COMPONENT_COUNT" by simp
    with 1 have np: "m_component_arrays r1 index \<noteq> Some a" by blast
    show ?thesis
    proof (cases "m_component_arrays r1 index")
      case None
      with assms(1) bit Returns have "h' = h1" by (simp add: assign_def Let_def)
      with 1 show ?thesis by simp
    next
      case (Some p)
      with np have pa: "a \<noteq> p" by auto
      from assms(1) bit Returns Some have "h' = h1 \<or> (\<exists>x. h' = h1[p := x])"
        by (auto simp: assign_def Let_def split: option.splits if_splits prod.splits)
      with pa 1 show ?thesis by (auto simp: heap_at_update_other)
    qed
  next
    case (Throws x)
    with assms(1) bit have "h' = h1" by (simp add: assign_def)
    with 1 show ?thesis by simp
  next
    case Undefined
    with assms(1) bit have "h' = h1" by (simp add: assign_def)
    with 1 show ?thesis by simp
  qed
qed

lemma get_ref_owned:
  assumes "get_ref h r T e = Returns ref"
  shows "\<exists>index<ECS_MAX_COMPONENT_COUNT. m_component_arrays r index = Some (fst ref)"
  using assms get_component_bit_cases [of r T]
  by (auto simp: get_ref_def split: result.splits option.splits if_splits)

lemma put_ref_frame: "a \<noteq> fst ref \<Longrightarrow> heap_at (put_ref h ref v) a = heap_at h a"
  by (simp add: put_ref_def heap_at_update_other split: option.splits)

section \<open>Copying a registry\<close>

lemma owns_arrays_iff:
  "owns_arrays h r \<longleftrightarrow>
     (\<forall>index<ECS_MAX_COMPONENT_COUNT. \<forall>p. m_component_arrays r index = Some p \<longrightarrow> heap_at h p \<noteq> None)"
  by (auto simp: owns_arrays_def list_all_iff split: option.splits)

lemma Registry_copy_clones:
  assumes "owns_arrays h R" and "Registry_copy h R = (res, h1)"
  shows "\<exists>C ys. res = Returns C \<and> h1 = h @ ys \<and>
           m_bit_to_component C = m_bit_to_component R \<and>
           (\<forall>index<ECS_MAX_COMPONENT_COUNT.
              (m_component_arrays R index = None \<longrightarrow> m_component_arrays C index = None) \<and>
              (\<forall>p. m_component_arrays R index = Some p \<longrightarrow>
                 (\<exists>p'. m_component_arrays C index = Some p' \<and> length h \<le> p' \<and>
                       p' < length h1 \<and> heap_at h1 p' = heap_at h p)))"
proof -
  obtain ok h' arrays where c:
    "copy_arrays h (m_component_arrays R) [0..<ECS_MAX_COMPONENT_COUNT] (\<lambda>bit. None) = (ok, h', arrays)"
    by (cases "copy_arrays h (m_component_arrays R) [0..<ECS_MAX_COMPONENT_COUNT] (\<lambda>bit. None)")
       auto
  have valid: "\<forall>i\<in>set [0..<ECS_MAX_COMPONENT_COUNT]. \<forall>p. m_component_arrays R i = Some p \<longrightarrow>
      heap_at h p \<noteq> None"
    using assms(1) by (simp add: owns_arrays_iff)
  note clones = copy_arrays_clones [OF c valid]
  from assms(2) c clones have res: "res = Returns
       (Registry_members
          \<lparr>m_entities := m_entities R,
           m_first_available_entity_slot := m_first_available_entity_slot R,
           m_view_count := m_view_count R,
           m_entity_signatures := m_entity_signatures R,
           m_view_entities := m_view_entities R,
           m_view_signatures := m_view_signatures R,
           m_bit_to_component := m_bit_to_component R,
           m_component_arrays := arrays\<rparr>)" and h1: "h1 = h'"
    by (simp_all add: Registry_copy_def Let_def Registry_members_def)
  from clones obtain ys where ys: "h' = h @ ys" by blast
  let ?C = "Registry_members
          \<lparr>m_entities := m_entities R,
           m_first_available_entity_slot := m_first_available_entity_slot R,
           m_view_count := m_view_count R,
           m_entity_signatures := m_entity_signatures R,
           m_view_entities := m_view_entities R,
           m_view_signatures := m_view_signatures R,
           m_bit_to_component := m_bit_to_component R,
           m_component_arrays := arrays\<rparr>"
  have "res = Returns ?C" by (rule res)
  moreover have "h1 = h @ ys" using h1 ys by simp
  moreover have "m_bit_to_component ?C = m_bit_to_component R" by simp
  moreover have "\<forall>index<ECS_MAX_COMPONENT_COUNT.
              (m_component_arrays R index = None \<longrightarrow> m_component_arrays ?C index = None) \<and>
              (\<forall>p. m_component_arrays R index = Some p \<longrightarrow>
                 (\<exists>p'. m_component_arrays ?C index = Some p' \<and> length h \<le> p' \<and>
                       p' < length h1 \<and> heap_at h1 p' = heap_at h p))"
    using clones h1 by auto
  ultimately show ?thesis by blast
qed

text \<open>
  What the copy constructor does achieve. For a registry \<open>R\<close> whose pointers are valid and
  the registry \<open>C\<close> that \<^verbatim>\<open>Registry(const Registry&)\<close> makes of it: \<open>C\<close> reads the values of
  \<open>R\<close>; whatever \<^verbatim>\<open>assign\<close> does to \<open>C\<close>, and whatever is written through a reference that
  \<^verbatim>\<open>get\<close> returned on \<open>C\<close>, every \<^verbatim>\<open>get\<close> on \<open>R\<close> returns what it returned before; and the same
  with the two registries exchanged. None of this holds of the copy assignment, which loses
  the clones.
\<close>

theorem copy_is_independent:
  assumes "owns_arrays h R" and "Registry_copy h R = (Returns C, h1)"
  shows "get h1 C T' x = get h R T' x \<and>
         get (fst (snd (assign h1 C T e v))) R T' x = get h R T' x \<and>
         (\<forall>ref. get_ref h1 C T e = Returns ref \<longrightarrow> get (put_ref h1 ref v) R T' x = get h R T' x) \<and>
         get (fst (snd (assign h1 R T e v))) C T' x = get h1 C T' x \<and>
         (\<forall>ref. get_ref h1 R T e = Returns ref \<longrightarrow> get (put_ref h1 ref v) C T' x = get h1 C T' x)"
proof -
  from Registry_copy_clones [OF assms] obtain ys where
    h1: "h1 = h @ ys" and
    bits: "m_bit_to_component C = m_bit_to_component R" and
    null: "\<And>index. index < ECS_MAX_COMPONENT_COUNT \<Longrightarrow> m_component_arrays R index = None \<Longrightarrow>
             m_component_arrays C index = None" and
    clone: "\<And>index p. index < ECS_MAX_COMPONENT_COUNT \<Longrightarrow> m_component_arrays R index = Some p \<Longrightarrow>
             \<exists>p'. m_component_arrays C index = Some p' \<and> length h \<le> p' \<and> p' < length h1 \<and>
                  heap_at h1 p' = heap_at h p"
    by auto
  have old: "p < length h" if "index < ECS_MAX_COMPONENT_COUNT" "m_component_arrays R index = Some p"
    for index p
    using that assms(1) heap_at_Some_less [of h p] by (auto simp: owns_arrays_iff)
  have new: "length h \<le> p' \<and> p' < length h1"
    if "index < ECS_MAX_COMPONENT_COUNT" "m_component_arrays C index = Some p'" for index p'
    using that null [of index] clone [of index] by (cases "m_component_arrays R index") auto
  have R_not_C: "\<forall>index<ECS_MAX_COMPONENT_COUNT. m_component_arrays C index \<noteq> Some p"
    if "j < ECS_MAX_COMPONENT_COUNT" "m_component_arrays R j = Some p" for j p
    using old [OF that] new by fastforce
  have C_not_R: "\<forall>index<ECS_MAX_COMPONENT_COUNT. m_component_arrays R index \<noteq> Some p'"
    if "j < ECS_MAX_COMPONENT_COUNT" "m_component_arrays C j = Some p'" for j p'
    using new [OF that] old by fastforce
  have same: "get g R T' x = get h R T' x"
    if "\<And>index p. index < ECS_MAX_COMPONENT_COUNT \<Longrightarrow> m_component_arrays R index = Some p \<Longrightarrow>
          heap_at g p = heap_at h p" for g
  proof (rule get_cong [OF refl])
    fix index :: nat
    assume "index < ECS_MAX_COMPONENT_COUNT"
    with that show "(m_component_arrays R index = None \<and> m_component_arrays R index = None) \<or>
          (\<exists>p' p. m_component_arrays R index = Some p' \<and> m_component_arrays R index = Some p \<and>
                  heap_at g p' = heap_at h p)"
      by (cases "m_component_arrays R index") auto
  qed
  have sameC: "get g C T' x = get h1 C T' x"
    if "\<And>index p. index < ECS_MAX_COMPONENT_COUNT \<Longrightarrow> m_component_arrays C index = Some p \<Longrightarrow>
          heap_at g p = heap_at h1 p" for g
  proof (rule get_cong [OF refl])
    fix index :: nat
    assume "index < ECS_MAX_COMPONENT_COUNT"
    with that show "(m_component_arrays C index = None \<and> m_component_arrays C index = None) \<or>
          (\<exists>p' p. m_component_arrays C index = Some p' \<and> m_component_arrays C index = Some p \<and>
                  heap_at g p' = heap_at h1 p)"
      by (cases "m_component_arrays C index") auto
  qed
  have prefix: "heap_at h1 p = heap_at h p" if "p < length h" for p
    using that by (simp add: h1 heap_at_append_old)
  have 1: "get h1 C T' x = get h R T' x"
  proof (rule get_cong [OF bits])
    fix index :: nat
    assume i: "index < ECS_MAX_COMPONENT_COUNT"
    show "(m_component_arrays C index = None \<and> m_component_arrays R index = None) \<or>
          (\<exists>p' p. m_component_arrays C index = Some p' \<and> m_component_arrays R index = Some p \<and>
                  heap_at h1 p' = heap_at h p)"
      using null [OF i] clone [OF i] by (cases "m_component_arrays R index") auto
  qed
  have 2: "get (fst (snd (assign h1 C T e v))) R T' x = get h R T' x"
  proof (rule same)
    fix index p
    assume i: "index < ECS_MAX_COMPONENT_COUNT" and p: "m_component_arrays R index = Some p"
    obtain res h2 C' where a: "assign h1 C T e v = (res, h2, C')"
      by (cases "assign h1 C T e v") auto
    from old [OF i p] have "p < length h1" by (simp add: h1)
    from assign_frame [OF a R_not_C [OF i p] this] prefix [OF old [OF i p]] a
    show "heap_at (fst (snd (assign h1 C T e v))) p = heap_at h p" by simp
  qed
  have 3: "get (put_ref h1 ref v) R T' x = get h R T' x" if r: "get_ref h1 C T e = Returns ref" for ref
  proof (rule same)
    fix index p
    assume i: "index < ECS_MAX_COMPONENT_COUNT" and p: "m_component_arrays R index = Some p"
    from get_ref_owned [OF r] R_not_C [OF i p] have "p \<noteq> fst ref" by auto
    with prefix [OF old [OF i p]] show "heap_at (put_ref h1 ref v) p = heap_at h p"
      by (simp add: put_ref_frame)
  qed
  have 4: "get (fst (snd (assign h1 R T e v))) C T' x = get h1 C T' x"
  proof (rule sameC)
    fix index p
    assume i: "index < ECS_MAX_COMPONENT_COUNT" and p: "m_component_arrays C index = Some p"
    obtain res h2 R' where a: "assign h1 R T e v = (res, h2, R')"
      by (cases "assign h1 R T e v") auto
    from new [OF i p] have "p < length h1" by simp
    from assign_frame [OF a C_not_R [OF i p] this] a
    show "heap_at (fst (snd (assign h1 R T e v))) p = heap_at h1 p" by simp
  qed
  have 5: "get (put_ref h1 ref v) C T' x = get h1 C T' x" if r: "get_ref h1 R T e = Returns ref" for ref
  proof (rule sameC)
    fix index p
    assume i: "index < ECS_MAX_COMPONENT_COUNT" and p: "m_component_arrays C index = Some p"
    from get_ref_owned [OF r] C_not_R [OF i p] have "p \<noteq> fst ref" by auto
    then show "heap_at (put_ref h1 ref v) p = heap_at h1 p"
      by (simp add: put_ref_frame)
  qed
  from 1 2 3 4 5 show ?thesis by blast
qed

theorem copy_is_independent_witness:
  "owns_arrays (fst two_entities) (snd two_entities) \<and>
   Registry_copy (fst two_entities) (snd two_entities) =
     (Returns (snd two_entities_copy), fst two_entities_copy) \<and>
   get (fst two_entities) (snd two_entities) Position 0 = Returns (1, 2) \<and>
   (case assign (fst two_entities_copy) (snd two_entities_copy) Position 0 (7, 8) of
      (res, h2, C') \<Rightarrow> (res, get h2 C' Position 0, get h2 (snd two_entities) Position 0)) =
     (Returns (), Returns (7, 8), Returns (1, 2))"
proof -
  have owns: "owns_arrays (fst two_entities) (snd two_entities)"
    by (simp add: owns_arrays_def two_entities_def evaluate)
  have copy: "Registry_copy (fst two_entities) (snd two_entities) =
      (Returns (snd two_entities_copy), fst two_entities_copy)"
    by (simp add: two_entities_copy_def two_entities_def evaluate)
  have original: "get (fst two_entities) (snd two_entities) Position 0 = Returns (1, 2)"
    by (simp add: two_entities_def evaluate)
  have changed: "(case assign (fst two_entities_copy) (snd two_entities_copy) Position 0 (7, 8) of
      (res, h2, C') \<Rightarrow> (res, get h2 C' Position 0)) = (Returns (), Returns (7, 8))"
    by (simp add: two_entities_copy_def two_entities_def evaluate)
  from copy_is_independent [OF owns copy, where T = Position and e = 0 and v = "(7, 8)"
      and T' = Position and x = 0] original
  have "get (fst (snd (assign (fst two_entities_copy) (snd two_entities_copy) Position 0 (7, 8))))
          (snd two_entities) Position 0 = Returns (1, 2)"
    by simp
  with owns copy original changed show ?thesis
    by (simp add: case_prod_beta)
qed

text \<open>
  C10. The copy constructor leaves \<^verbatim>\<open>m_components_assigned\<close> at its initialiser: every count
  of a copy is 0, whatever the counts of the original. So the counts of the copy do not say
  how many entities hold a type, and \<^verbatim>\<open>remove\<close> releases bits differently: with one entity
  holding a position (count 1, count 0 in the copy), removing it releases the binding in the
  original, where the count reaches 0, and keeps it in the copy, where the count wraps
  around to 4294967295.
\<close>

theorem copy_resets_reference_counts:
  "(\<forall>h R C h1 index.
      Registry_copy h R = (Returns C, h1) \<longrightarrow> m_components_assigned C index = 0) \<and>
   do { (ids, h, r) \<leftarrow> run ([], Registry_ctor) [Create_entity, Assign Position 0 (1, 2)];
        (h1, c) \<leftarrow> copy_of (h, r);
        (ids2, h2, r') \<leftarrow> run (h1, r) [Remove Position 0];
        (ids3, h3, c') \<leftarrow> run (h2, c) [Remove Position 0];
        Some (m_components_assigned r 0, m_components_assigned c 0,
              signature_includes r Position 0, signature_includes c Position 0,
              has_component_bit r' Position, has_component_bit c' Position,
              m_components_assigned c' 0) } =
   Some (1, 0, True, True, False, True, 4294967295)"
proof
  show "\<forall>h R C h1 index.
      Registry_copy (h :: 'a heap) R = (Returns C, h1) \<longrightarrow> m_components_assigned C index = 0"
    by (auto simp: Registry_copy_def Let_def Registry_members_def split: prod.splits if_splits)
  show "do { (ids, h, r) \<leftarrow> run ([], Registry_ctor) [Create_entity, Assign Position 0 (1, 2)];
        (h1, c) \<leftarrow> copy_of (h, r);
        (ids2, h2, r') \<leftarrow> run (h1, r) [Remove Position 0];
        (ids3, h3, c') \<leftarrow> run (h2, c) [Remove Position 0];
        Some (m_components_assigned r 0, m_components_assigned c 0,
              signature_includes r Position 0, signature_includes c Position 0,
              has_component_bit r' Position, has_component_bit c' Position,
              m_components_assigned c' 0) } =
   Some (1, 0, True, True, False, True, 4294967295)"
    by (simp add: evaluate)
qed

theorem copy_resets_reference_counts_witness:
  "Registry_copy (fst two_entities) (snd two_entities) =
     (Returns (snd two_entities_copy), fst two_entities_copy) \<and>
   m_components_assigned (snd two_entities) 0 = 1 \<and>
   m_components_assigned (snd two_entities) 1 = 1 \<and>
   m_components_assigned (snd two_entities_copy) 0 = 0 \<and>
   m_components_assigned (snd two_entities_copy) 1 = 0"
proof -
  have copy: "Registry_copy (fst two_entities) (snd two_entities) =
      (Returns (snd two_entities_copy), fst two_entities_copy)"
    by (simp add: two_entities_copy_def two_entities_def evaluate)
  have counts: "m_components_assigned (snd two_entities) 0 = 1 \<and>
      m_components_assigned (snd two_entities) 1 = 1"
    by (simp add: two_entities_def evaluate)
  from copy_resets_reference_counts [THEN conjunct1, rule_format, OF copy] copy counts
  show ?thesis by simp
qed

section \<open>Store and load\<close>

text \<open>
  An \<^verbatim>\<open>assign\<close> that returns is followed by a \<^verbatim>\<open>get\<close> that returns the assigned value, in
  every heap and registry.
\<close>

lemma on_entity_signature_change_views:
  "\<exists>views. snd (on_entity_signature_change r entity) = r\<lparr>m_view_entities := views\<rparr>"
proof (cases "entity < ECS_MAX_ENTITY_COUNT")
  case True
  then show ?thesis
    by (auto simp: on_entity_signature_change_def Let_def split: prod.splits)
next
  case False
  then have "snd (on_entity_signature_change r entity) = r\<lparr>m_view_entities := m_view_entities r\<rparr>"
    by (simp add: on_entity_signature_change_def)
  then show ?thesis ..
qed

lemma get_component_bit_first:
  assumes "index < ECS_MAX_COMPONENT_COUNT" and "m_bit_to_component r index = hash_code T"
      and "\<forall>j<index. m_bit_to_component r j \<noteq> hash_code T"
  shows "get_component_bit r T = Returns index"
  using get_component_bit_cases [of r T] assms
  by (metis linorder_neqE_nat result.inject)

lemma create_component_bit_binds:
  assumes "create_component_bit h r T = (Returns index, h1, r1)" and "\<not> has_component_bit r T"
  shows "get_component_bit r1 T = Returns index"
proof -
  from assms(1) have f: "find (\<lambda>bit. m_bit_to_component r bit = 0) [0..<ECS_MAX_COMPONENT_COUNT] = Some index"
    and r1: "m_bit_to_component r1 = (m_bit_to_component r)(index := hash_code T)"
    by (auto simp: create_component_bit_def Let_def heap_new_def split: option.splits)
  from f have i: "index < ECS_MAX_COMPONENT_COUNT" by (auto simp: find_Some_iff)
  from assms(2) have "\<forall>j<index. m_bit_to_component r j \<noteq> hash_code T"
    using i by (auto simp: has_component_bit_iff)
  then show ?thesis
    using i by (intro get_component_bit_first) (auto simp: r1)
qed

lemma assign_then_get:
  assumes "assign h r T entity data = (Returns (), h', r')"
  shows "get h' r' T entity = Returns data"
proof -
  obtain res1 h1 r1 where bit:
    "(if has_component_bit r T then (get_component_bit r T, h, r)
      else create_component_bit h r T) = (res1, h1, r1)"
    by (cases "if has_component_bit r T then (get_component_bit r T, h, r)
      else create_component_bit h r T") auto
  from assms bit obtain index where res1: "res1 = Returns index"
    by (cases res1) (auto simp: assign_def)
  have found: "get_component_bit r1 T = Returns index"
  proof (cases "has_component_bit r T")
    case True
    with bit res1 show ?thesis by auto
  next
    case False
    with bit res1 have "create_component_bit h r T = (Returns index, h1, r1)" by simp
    from create_component_bit_binds [OF this False] show ?thesis .
  qed
  let ?r2 = "r1\<lparr>m_components_assigned := (m_components_assigned r1)
                        (index := uint32_t (m_components_assigned r1 index + 1))\<rparr>"
  from assms bit res1 obtain p where p: "m_component_arrays r1 index = Some p"
    by (cases "m_component_arrays r1 index") (auto simp: assign_def Let_def)
  from assms bit res1 p obtain seq where seq: "heap_at h1 p = Some seq"
    by (cases "heap_at h1 p") (auto simp: assign_def Let_def)
  from assms bit res1 p seq have len: "entity < length seq"
    by (auto simp: assign_def Let_def split: if_splits)
  let ?h2 = "h1[p := Some (seq[entity := data])]"
  let ?r3 = "?r2\<lparr>m_entity_signatures := (m_entity_signatures ?r2)
                 (entity := set_bit index (m_entity_signatures ?r2 entity))\<rparr>"
  from assms bit res1 p seq len have h': "h' = ?h2"
    and r': "r' = snd (on_entity_signature_change ?r3 entity)"
    by (auto simp: assign_def Let_def split: if_splits prod.splits)
  from on_entity_signature_change_views [of ?r3 entity] r'
  obtain views where "r' = ?r3\<lparr>m_view_entities := views\<rparr>" by auto
  then have bits: "m_bit_to_component r' = m_bit_to_component r1"
    and arrays: "m_component_arrays r' = m_component_arrays r1"
    by simp_all
  from found bits have "get_component_bit r' T = Returns index"
    by (simp add: get_component_bit_def)
  moreover from seq have "heap_at h' p = Some (seq[entity := data])"
    using heap_at_Some_less [OF seq] by (simp add: h' heap_at_def)
  ultimately show ?thesis
    using p arrays len by (simp add: get_eq)
qed

text \<open>
  C4. After \<^verbatim>\<open>assign<T>(e, v)\<close>, \<^verbatim>\<open>get<T>(e)\<close> returns \<open>v\<close>, and goes on returning it across
  calls that neither overwrite nor remove \<open>T\<close> on \<open>e\<close>. The first part is \<open>assign_then_get\<close>.
  The second fails on a copy-constructed registry, whose counts start at 0: in the copy of a
  registry where entity 0 holds a position, assigning a position to entity 1 makes the count
  1, and removing the position of entity 0 makes it 0, which releases the binding and the
  array; \<^verbatim>\<open>get\<close> on entity 1 then throws.
\<close>

theorem value_lost_on_copied_registry:
  "do { (ids, s) \<leftarrow> run ([], Registry_ctor)
          [Create_entity, Create_entity, Assign Position 0 (1, 2)];
        c \<leftarrow> copy_of s;
        (ids1, h1, c1) \<leftarrow> run c [Assign Position 1 (3, 4)];
        (ids2, h2, c2) \<leftarrow> run (h1, c1) [Remove Position 0];
        Some (ids, get h1 c1 Position 1, get h2 c2 Position 1) } =
   Some ([0, 1], Returns (3, 4),
         Throws (runtime_error ''Component bit queried on unregistered component.''))"
  by (simp add: evaluate)

section \<open>The first entity, and interned views\<close>

text \<open>
  \<^verbatim>\<open>destroy_entity(0)\<close> never returns: \<^verbatim>\<open>entity - 1\<close> wraps around and \<^verbatim>\<open>.at()\<close> throws.
  A view created twice has one handle, as long as the next handle is not in use.
\<close>

lemma unlink_first_entity_throws: "fst (unlink_entity r 0) = Throws out_of_range"
  by (simp add: unlink_entity_def uint32_t_def Let_def)

lemma destroy_first_entity_never_returns: "destroy_entity r 0 \<noteq> Some (Returns (), r')"
proof (cases "release_slot r 0")
  case None
  then show ?thesis by (simp add: destroy_entity_def)
next
  case (Some a)
  obtain res r1 where a: "a = (res, r1)" by (cases a)
  show ?thesis
  proof (cases res)
    case (Returns u)
    with Some a have "destroy_entity r 0 = Some (unlink_entity r1 0)"
      by (simp add: destroy_entity_def)
    with unlink_first_entity_throws [of r1] show ?thesis
      by (cases "unlink_entity r1 0") auto
  next
    case (Throws x)
    with Some a show ?thesis by (simp add: destroy_entity_def)
  next
    case Undefined
    with Some a show ?thesis by (simp add: destroy_entity_def)
  qed
qed

lemma set_component_bits_cong:
  assumes "m_bit_to_component r' = m_bit_to_component r"
  shows "set_component_bits r' Ts signature = set_component_bits r Ts signature"
proof (induction Ts arbitrary: signature)
  case Nil
  show ?case by simp
next
  case (Cons T Ts)
  have "get_component_bit r' T = get_component_bit r T"
    using assms by (rule get_component_bit_cong)
  with Cons show ?case by (simp split: result.splits)
qed

lemma find_snoc_new:
  "find P xs = None \<Longrightarrow> P x \<Longrightarrow> find P (xs @ [x]) = Some x"
  by (induction xs) (auto split: if_splits)

lemma create_view_new:
  assumes "set_component_bits r Ts 0 = Returns signature"
      and "find (\<lambda>view_and_signature. signature = snd view_and_signature) (m_view_signatures r) = None"
      and "create_view r Ts = Some (res, r')"
  shows "res = Returns (m_view_count r) \<and>
         m_view_signatures r' = umap_insert (m_view_count r) signature (m_view_signatures r) \<and>
         m_bit_to_component r' = m_bit_to_component r"
proof (cases "live_traversal (m_entities r) 0")
  case None
  have "create_view r Ts = None"
    unfolding create_view_def by (simp add: assms(1,2) None Let_def)
  with assms(3) show ?thesis by simp
next
  case (Some visited)
  from assms(3) [unfolded create_view_def] show ?thesis
    by (auto simp add: assms(1,2) Some Let_def)
qed

lemma create_view_returns_signature:
  assumes "create_view r Ts = Some (Returns view, r')"
  shows "\<exists>signature. set_component_bits r Ts 0 = Returns signature"
proof (cases "set_component_bits r Ts 0")
  case (Returns x)
  then show ?thesis by simp
next
  case (Throws x)
  have "create_view r Ts = Some (Throws x, r)"
    unfolding create_view_def by (simp add: Throws)
  with assms show ?thesis by simp
next
  case Undefined
  have "create_view r Ts = Some (Undefined, r)"
    unfolding create_view_def by (simp add: Undefined)
  with assms show ?thesis by simp
qed

lemma create_view_found:
  assumes "set_component_bits r Ts 0 = Returns signature"
      and "find (\<lambda>view_and_signature. signature = snd view_and_signature) (m_view_signatures r) =
             Some found"
  shows "create_view r Ts = Some (Returns (fst found), r)"
  unfolding create_view_def by (simp add: assms)

lemma create_view_interned:
  assumes "create_view r Ts = Some (Returns view, r')"
      and "map_of (m_view_signatures r) (m_view_count r) = None"
  shows "create_view r' Ts = Some (Returns view, r')"
proof -
  from create_view_returns_signature [OF assms(1)]
  obtain signature where sig: "set_component_bits r Ts 0 = Returns signature" ..
  show ?thesis
  proof (cases "find (\<lambda>view_and_signature. signature = snd view_and_signature) (m_view_signatures r)")
    case (Some found)
    from create_view_found [OF sig Some] assms(1) have "r' = r" by simp
    with assms(1) show ?thesis by simp
  next
    case None
    from create_view_new [OF sig None assms(1)] assms(2)
    have views: "m_view_signatures r' = m_view_signatures r @ [(m_view_count r, signature)]"
      and bits: "m_bit_to_component r' = m_bit_to_component r"
      and view: "view = m_view_count r"
      by (simp_all add: umap_insert_def)
    have found: "find (\<lambda>view_and_signature. signature = snd view_and_signature) (m_view_signatures r') =
        Some (m_view_count r, signature)"
      unfolding views by (rule find_snoc_new [OF None]) simp
    from sig have "set_component_bits r' Ts 0 = Returns signature"
      by (simp add: set_component_bits_cong [OF bits])
    from create_view_found [OF this found] view show ?thesis by simp
  qed
qed

section \<open>Every registry built by calls owns its arrays\<close>

text \<open>
  The fresh registry owns its arrays (it has none), and every call keeps the pointers valid
  and unshared, whatever its outcome. So \<open>owns_arrays\<close> holds of every registry that a
  script builds.
\<close>

lemma unshared_arrays_iff:
  "unshared_arrays r \<longleftrightarrow>
     (\<forall>i<ECS_MAX_COMPONENT_COUNT. \<forall>j<ECS_MAX_COMPONENT_COUNT. \<forall>p.
        m_component_arrays r i = Some p \<longrightarrow> m_component_arrays r j = Some p \<longrightarrow> i = j)"
proof -
  have "unshared_arrays r \<longleftrightarrow>
      (\<forall>i<ECS_MAX_COMPONENT_COUNT. \<forall>j<ECS_MAX_COMPONENT_COUNT.
         m_component_arrays r i = None \<or> i = j \<or> m_component_arrays r i \<noteq> m_component_arrays r j)"
    by (simp add: unshared_arrays_def list_all_length)
  also have "\<dots> \<longleftrightarrow> (\<forall>i<ECS_MAX_COMPONENT_COUNT. \<forall>j<ECS_MAX_COMPONENT_COUNT. \<forall>p.
        m_component_arrays r i = Some p \<longrightarrow> m_component_arrays r j = Some p \<longrightarrow> i = j)"
    by (metis not_Some_eq)
  finally show ?thesis .
qed

lemma owned_iff:
  "owns_arrays h r \<and> unshared_arrays r \<longleftrightarrow>
     (\<forall>i<ECS_MAX_COMPONENT_COUNT. \<forall>p. m_component_arrays r i = Some p \<longrightarrow>
        heap_at h p \<noteq> None \<and>
        (\<forall>j<ECS_MAX_COMPONENT_COUNT. m_component_arrays r j = Some p \<longrightarrow> j = i))"
  unfolding owns_arrays_iff unshared_arrays_iff by blast

lemma owned_fresh: "owns_arrays [] Registry_ctor \<and> unshared_arrays Registry_ctor"
  unfolding owned_iff by (simp add: Registry_ctor_def Registry_members_def)

lemma heap_at_update_same:
  assumes "heap_at h p \<noteq> None" and "heap_at h a \<noteq> None"
  shows "heap_at (h[p := Some x]) a \<noteq> None"
  using assms by (cases "a = p") (auto simp: heap_at_def split: if_splits)

lemma ownedD:
  assumes "owns_arrays h r \<and> unshared_arrays r"
      and "i < ECS_MAX_COMPONENT_COUNT" and "m_component_arrays r i = Some p"
  shows "heap_at h p \<noteq> None" and "p < length h"
    and "\<And>j. j < ECS_MAX_COMPONENT_COUNT \<Longrightarrow> m_component_arrays r j = Some p \<Longrightarrow> j = i"
proof -
  note all = assms(1) [unfolded owned_iff, rule_format, OF assms(2,3)]
  from all show valid: "heap_at h p \<noteq> None" by (rule conjunct1)
  then show "p < length h" by (simp add: heap_at_def split: if_splits)
  fix j
  assume "j < ECS_MAX_COMPONENT_COUNT" "m_component_arrays r j = Some p"
  with all show "j = i" by blast
qed

lemma ownedI:
  assumes "\<And>i p. i < ECS_MAX_COMPONENT_COUNT \<Longrightarrow> m_component_arrays r i = Some p \<Longrightarrow>
             heap_at h p \<noteq> None \<and>
             (\<forall>j<ECS_MAX_COMPONENT_COUNT. m_component_arrays r j = Some p \<longrightarrow> j = i)"
  shows "owns_arrays h r \<and> unshared_arrays r"
  unfolding owned_iff using assms by blast

lemma owned_cong:
  assumes "m_component_arrays r' = m_component_arrays r"
      and "owns_arrays h r \<and> unshared_arrays r"
  shows "owns_arrays h r' \<and> unshared_arrays r'"
  using assms(2) unfolding owned_iff assms(1) .

lemma owned_store:
  assumes "owns_arrays h r \<and> unshared_arrays r" and "heap_at h p \<noteq> None"
  shows "owns_arrays (h[p := Some x]) r \<and> unshared_arrays r"
proof (rule ownedI)
  fix i q
  assume i: "i < ECS_MAX_COMPONENT_COUNT" and q: "m_component_arrays r i = Some q"
  from ownedD(1) [OF assms(1) i q] assms(2) have "heap_at (h[p := Some x]) q \<noteq> None"
    by (rule heap_at_update_same [rotated])
  moreover from ownedD(3) [OF assms(1) i q]
  have "\<forall>j<ECS_MAX_COMPONENT_COUNT. m_component_arrays r j = Some q \<longrightarrow> j = i" by blast
  ultimately show "heap_at (h[p := Some x]) q \<noteq> None \<and>
      (\<forall>j<ECS_MAX_COMPONENT_COUNT. m_component_arrays r j = Some q \<longrightarrow> j = i)" ..
qed

lemma owned_release:
  assumes "owns_arrays h r \<and> unshared_arrays r" and "index < ECS_MAX_COMPONENT_COUNT"
      and "m_component_arrays r' = (m_component_arrays r)(index := None)"
  shows "owns_arrays (heap_delete h (m_component_arrays r index)) r' \<and> unshared_arrays r'"
proof (rule ownedI)
  fix i p
  assume i: "i < ECS_MAX_COMPONENT_COUNT" and p: "m_component_arrays r' i = Some p"
  from p have ne: "i \<noteq> index" and old: "m_component_arrays r i = Some p"
    unfolding assms(3) by (simp_all split: if_splits)
  note valid = ownedD(1) [OF assms(1) i old] and uniq = ownedD(3) [OF assms(1) i old]
  from uniq [OF assms(2)] ne have "m_component_arrays r index \<noteq> Some p" by blast
  with valid have "heap_at (heap_delete h (m_component_arrays r index)) p \<noteq> None"
    by (simp add: heap_at_delete_other)
  moreover have "\<forall>j<ECS_MAX_COMPONENT_COUNT. m_component_arrays r' j = Some p \<longrightarrow> j = i"
    unfolding assms(3) using uniq by (simp split: if_splits)
  ultimately show "heap_at (heap_delete h (m_component_arrays r index)) p \<noteq> None \<and>
      (\<forall>j<ECS_MAX_COMPONENT_COUNT. m_component_arrays r' j = Some p \<longrightarrow> j = i)" ..
qed

lemma owned_create_component_bit:
  assumes "owns_arrays h r \<and> unshared_arrays r"
      and "create_component_bit h r T = (res, h1, r1)"
  shows "owns_arrays h1 r1 \<and> unshared_arrays r1"
proof (cases "find (\<lambda>bit. m_bit_to_component r bit = 0) [0..<ECS_MAX_COMPONENT_COUNT]")
  case None
  have "create_component_bit h r T = (Throws out_of_range, h, r)"
    unfolding create_component_bit_def by (simp add: None)
  with assms show ?thesis by simp
next
  case (Some index)
  then have i: "index < ECS_MAX_COMPONENT_COUNT" by (auto simp: find_Some_iff)
  let ?new = "replicate ECS_MAX_ENTITY_COUNT (value_initialized T)"
  have "create_component_bit h r T =
      (Returns index, heap_delete (h @ [Some ?new]) (m_component_arrays r index),
       r\<lparr>m_bit_to_component := (m_bit_to_component r)(index := hash_code T),
         m_component_arrays := (m_component_arrays r)(index := Some (length h))\<rparr>)"
    unfolding create_component_bit_def by (simp add: Some heap_new_def Let_def)
  with assms(2)
  have h1: "h1 = heap_delete (h @ [Some ?new]) (m_component_arrays r index)"
    and r1: "m_component_arrays r1 = (m_component_arrays r)(index := Some (length h))"
    by auto
  have not_fresh: "m_component_arrays r j \<noteq> Some (length h)" if "j < ECS_MAX_COMPONENT_COUNT" for j
    using ownedD(2) [OF assms(1) that, of "length h"] by blast
  show ?thesis
  proof (rule ownedI)
    fix k p
    assume k: "k < ECS_MAX_COMPONENT_COUNT" and p: "m_component_arrays r1 k = Some p"
    show "heap_at h1 p \<noteq> None \<and>
          (\<forall>j<ECS_MAX_COMPONENT_COUNT. m_component_arrays r1 j = Some p \<longrightarrow> j = k)"
    proof (cases "k = index")
      case True
      with p have pn: "p = length h" unfolding r1 by simp
      have "heap_at (h @ [Some ?new]) (length h) = Some ?new"
        by (simp add: heap_at_def)
      with not_fresh [OF i] have "heap_at h1 p \<noteq> None"
        unfolding h1 pn by (simp add: heap_at_delete_other)
      moreover have "\<forall>j<ECS_MAX_COMPONENT_COUNT. m_component_arrays r1 j = Some p \<longrightarrow> j = k"
        unfolding r1 pn True using not_fresh by (simp split: if_splits)
      ultimately show ?thesis ..
    next
      case False
      with p have old: "m_component_arrays r k = Some p" unfolding r1 by simp
      note valid = ownedD(1) [OF assms(1) k old] and below = ownedD(2) [OF assms(1) k old]
        and uniq = ownedD(3) [OF assms(1) k old]
      from uniq [OF i] False have "m_component_arrays r index \<noteq> Some p" by blast
      moreover from below valid have "heap_at (h @ [Some ?new]) p \<noteq> None"
        by (simp add: heap_at_append_old)
      ultimately have "heap_at h1 p \<noteq> None"
        unfolding h1 by (simp add: heap_at_delete_other)
      moreover have "\<forall>j<ECS_MAX_COMPONENT_COUNT. m_component_arrays r1 j = Some p \<longrightarrow> j = k"
        unfolding r1 using uniq below by (auto split: if_splits)
      ultimately show ?thesis ..
    qed
  qed
qed

lemma create_entity_arrays:
  "m_component_arrays (snd (create_entity r)) = m_component_arrays r"
  by (simp add: create_entity_def Let_def)

lemma unlink_entity_arrays:
  "m_component_arrays (snd (unlink_entity r entity)) = m_component_arrays r"
  by (simp add: unlink_entity_def Let_def)

lemma release_slot_arrays:
  assumes "release_slot r entity = Some (res, r')"
  shows "m_component_arrays r' = m_component_arrays r"
proof (cases "entity < m_first_available_entity_slot r")
  case True
  with assms show ?thesis by (auto simp: release_slot_def)
next
  case False
  show ?thesis
  proof (cases "free_slot_scan (m_entities r) entity (m_first_available_entity_slot r)")
    case None
    with False assms show ?thesis by (simp add: release_slot_def)
  next
    case (Some scanned)
    with False assms show ?thesis
      by (cases scanned) (auto simp: release_slot_def split: if_splits)
  qed
qed

lemma destroy_entity_arrays:
  assumes "destroy_entity r entity = Some (res, r')"
  shows "m_component_arrays r' = m_component_arrays r"
proof (cases "entity < ECS_MAX_ENTITY_COUNT")
  case False
  with assms show ?thesis by (simp add: destroy_entity_def)
next
  case True
  show ?thesis
  proof (cases "release_slot r entity")
    case None
    with True assms show ?thesis by (simp add: destroy_entity_def)
  next
    case (Some released)
    obtain res1 r1 where released: "released = (res1, r1)" by (cases released)
    note kept = release_slot_arrays [OF Some [unfolded released]]
    show ?thesis
    proof (cases res1)
      case (Returns u)
      with True Some released assms have "r' = snd (unlink_entity r1 entity)"
        by (simp add: destroy_entity_def)
      with kept show ?thesis by (simp add: unlink_entity_arrays)
    next
      case (Throws x)
      with True Some released assms kept show ?thesis by (simp add: destroy_entity_def)
    next
      case Undefined
      with True Some released assms kept show ?thesis by (simp add: destroy_entity_def)
    qed
  qed
qed

lemma destroy_view_arrays:
  "m_component_arrays (snd (destroy_view r view)) = m_component_arrays r"
  by (simp add: destroy_view_def split: option.splits)

lemma create_view_arrays:
  assumes "create_view r Ts = Some (res, r')"
  shows "m_component_arrays r' = m_component_arrays r"
proof (cases "set_component_bits r Ts 0")
  case (Returns signature)
  show ?thesis
  proof (cases "find (\<lambda>view_and_signature. signature = snd view_and_signature) (m_view_signatures r)")
    case None
    show ?thesis
    proof (cases "live_traversal (m_entities r) 0")
      case no: None
      have "create_view r Ts = None"
        unfolding create_view_def by (simp add: Returns None no Let_def)
      with assms show ?thesis by simp
    next
      case (Some visited)
      from assms [unfolded create_view_def] show ?thesis
        by (auto simp add: Returns None Some Let_def)
    qed
  next
    case (Some found)
    from create_view_found [OF Returns Some] assms show ?thesis by simp
  qed
next
  case (Throws x)
  have "create_view r Ts = Some (Throws x, r)"
    unfolding create_view_def by (simp add: Throws)
  with assms show ?thesis by simp
next
  case Undefined
  have "create_view r Ts = Some (Undefined, r)"
    unfolding create_view_def by (simp add: Undefined)
  with assms show ?thesis by simp
qed

lemma on_entity_signature_change_arrays:
  "m_component_arrays (snd (on_entity_signature_change r entity)) = m_component_arrays r"
  using on_entity_signature_change_views [of r entity] by auto

lemma owned_assign:
  assumes "owns_arrays h r \<and> unshared_arrays r" and "assign h r T e v = (res, h', r')"
  shows "owns_arrays h' r' \<and> unshared_arrays r'"
proof -
  obtain res1 h1 r1 where bit:
    "(if has_component_bit r T then (get_component_bit r T, h, r)
      else create_component_bit h r T) = (res1, h1, r1)"
    by (cases "if has_component_bit r T then (get_component_bit r T, h, r)
      else create_component_bit h r T") auto
  have owned1: "owns_arrays h1 r1 \<and> unshared_arrays r1"
  proof (cases "has_component_bit r T")
    case True
    with bit have "h1 = h" "r1 = r" by auto
    with assms(1) show ?thesis by simp
  next
    case False
    with bit have "create_component_bit h r T = (res1, h1, r1)" by simp
    from owned_create_component_bit [OF assms(1) this] show ?thesis .
  qed
  show ?thesis
  proof (cases res1)
    case (Throws x)
    with assms(2) bit have "h' = h1" "r' = r1" by (simp_all add: assign_def)
    with owned1 show ?thesis by simp
  next
    case Undefined
    with assms(2) bit have "h' = h1" "r' = r1" by (simp_all add: assign_def)
    with owned1 show ?thesis by simp
  next
    case (Returns index)
    let ?r2 = "r1\<lparr>m_components_assigned := (m_components_assigned r1)
                        (index := uint32_t (m_components_assigned r1 index + 1))\<rparr>"
    have owned2: "owns_arrays g ?r2 \<and> unshared_arrays ?r2"
      if "owns_arrays g r1 \<and> unshared_arrays r1" for g :: "'a heap"
      using that by (rule owned_cong [rotated]) simp
    show ?thesis
    proof (cases "m_component_arrays r1 index")
      case None
      with assms(2) bit Returns have "h' = h1" "r' = ?r2" by (simp_all add: assign_def Let_def)
      with owned2 [OF owned1] show ?thesis by simp
    next
      case (Some p)
      show ?thesis
      proof (cases "heap_at h1 p")
        case None
        with assms(2) bit Returns Some have "h' = h1" "r' = ?r2"
          by (simp_all add: assign_def Let_def)
        with owned2 [OF owned1] show ?thesis by simp
      next
        case seq: (Some m_component_seq)
        show ?thesis
        proof (cases "e < length m_component_seq")
          case False
          with assms(2) bit Returns Some seq have "h' = h1" "r' = ?r2"
            by (simp_all add: assign_def Let_def)
          with owned2 [OF owned1] show ?thesis by simp
        next
          case True
          let ?h2 = "h1[p := Some (m_component_seq[e := v])]"
          from seq have "heap_at h1 p \<noteq> None" by simp
          from owned_store [OF owned1 this] have owned3: "owns_arrays ?h2 r1 \<and> unshared_arrays r1" .
          show ?thesis
          proof (cases "e < ECS_MAX_ENTITY_COUNT")
            case False
            with assms(2) bit Returns Some seq True have "h' = ?h2" "r' = ?r2"
              by (simp_all add: assign_def Let_def)
            with owned2 [OF owned3] show ?thesis by simp
          next
            case inside: True
            let ?r3 = "?r2\<lparr>m_entity_signatures := (m_entity_signatures ?r2)
                 (e := set_bit index (m_entity_signatures ?r2 e))\<rparr>"
            from assms(2) bit Returns Some seq True inside
            have "h' = ?h2" and "r' = snd (on_entity_signature_change ?r3 e)"
              by (simp_all add: assign_def Let_def split: prod.splits)
            moreover have "m_component_arrays (snd (on_entity_signature_change ?r3 e)) =
                m_component_arrays r1"
              by (simp add: on_entity_signature_change_arrays)
            ultimately show ?thesis using owned_cong [OF _ owned3] by simp
          qed
        qed
      qed
    qed
  qed
qed

lemma owned_remove:
  assumes "owns_arrays h r \<and> unshared_arrays r" and "remove h r T e = (res, h', r')"
  shows "owns_arrays h' r' \<and> unshared_arrays r'"
proof (cases "has_component_bit r T")
  case False
  with assms(2) have "h' = h" "r' = r" by (simp_all add: remove_def)
  with assms(1) show ?thesis by simp
next
  case True
  then obtain index where i: "index < ECS_MAX_COMPONENT_COUNT"
      and bit: "get_component_bit r T = Returns index"
    using get_component_bit_cases [of r T] by (auto simp: has_component_bit_iff)
  show ?thesis
  proof (cases "e < ECS_MAX_ENTITY_COUNT \<and> bit (m_entity_signatures r e) index")
    case False
    with assms(2) True bit have "h' = h" "r' = r" by (auto simp: remove_def split: if_splits)
    with assms(1) show ?thesis by simp
  next
    case held: True
    let ?count = "uint32_t (m_components_assigned r index + 4294967296 - 1)"
    let ?r1 = "r\<lparr>m_components_assigned := (m_components_assigned r)(index := ?count)\<rparr>"
    show ?thesis
    proof (cases "?count = 0")
      case False
      let ?r3 = "?r1\<lparr>m_entity_signatures := (m_entity_signatures ?r1)
                              (e := unset_bit index (m_entity_signatures ?r1 e))\<rparr>"
      from assms(2) True bit held False
      have "h' = h" and "r' = snd (on_entity_signature_change ?r3 e)"
        by (simp_all add: remove_def Let_def split: prod.splits)
      moreover have "m_component_arrays (snd (on_entity_signature_change ?r3 e)) =
          m_component_arrays r"
        by (simp add: on_entity_signature_change_arrays)
      ultimately show ?thesis using owned_cong [OF _ assms(1)] by simp
    next
      case zero: True
      let ?r2 = "?r1\<lparr>m_bit_to_component := (m_bit_to_component ?r1)(index := 0),
                      m_component_arrays := (m_component_arrays ?r1)(index := None)\<rparr>"
      let ?r3 = "?r2\<lparr>m_entity_signatures := (m_entity_signatures ?r2)
                              (e := unset_bit index (m_entity_signatures ?r2 e))\<rparr>"
      from assms(2) True bit held zero
      have "h' = heap_delete h (m_component_arrays r index)"
        and "r' = snd (on_entity_signature_change ?r3 e)"
        by (simp_all add: remove_def Let_def split: prod.splits)
      moreover have "m_component_arrays (snd (on_entity_signature_change ?r3 e)) =
          (m_component_arrays r)(index := None)"
        by (simp add: on_entity_signature_change_arrays)
      ultimately show ?thesis using owned_release [OF assms(1) i] by simp
    qed
  qed
qed

lemma owned_perform:
  assumes "owns_arrays h r \<and> unshared_arrays r" and "perform (h, r) c = Some (ids, h', r')"
  shows "owns_arrays h' r' \<and> unshared_arrays r'"
proof (cases c)
  case Create_entity
  with assms(2) have "h' = h" "r' = snd (create_entity r)"
    by (auto split: prod.splits result.splits)
  with assms(1) show ?thesis
    using owned_cong [OF create_entity_arrays] by simp
next
  case (Destroy_entity e)
  with assms(2) obtain res where "h' = h" "destroy_entity r e = Some (res, r')"
    by (auto split: option.splits prod.splits result.splits)
  with assms(1) show ?thesis
    using owned_cong [OF destroy_entity_arrays] by simp
next
  case (Create_view Ts)
  with assms(2) obtain res where "h' = h" "create_view r Ts = Some (res, r')"
    by (auto split: option.splits prod.splits result.splits)
  with assms(1) show ?thesis
    using owned_cong [OF create_view_arrays] by simp
next
  case (Destroy_view v)
  with assms(2) have "h' = h" "r' = snd (destroy_view r v)"
    by (auto split: prod.splits result.splits)
  with assms(1) show ?thesis
    using owned_cong [OF destroy_view_arrays] by simp
next
  case (Assign T e d)
  with assms(2) obtain res where "assign h r T e d = (res, h', r')"
    by (auto split: prod.splits result.splits)
  from owned_assign [OF assms(1) this] show ?thesis .
next
  case (Remove T e)
  with assms(2) obtain res where "remove h r T e = (res, h', r')"
    by (auto split: prod.splits result.splits)
  from owned_remove [OF assms(1) this] show ?thesis .
qed

lemma owned_run:
  assumes "owns_arrays h r \<and> unshared_arrays r" and "run (h, r) cs = Some (ids, h', r')"
  shows "owns_arrays h' r' \<and> unshared_arrays r'"
  using assms
proof (induction cs arbitrary: h r ids)
  case Nil
  then show ?case by simp
next
  case (Cons c cs)
  from Cons.prems(2) obtain ids1 h1 r1 ids2 where
    step: "perform (h, r) c = Some (ids1, h1, r1)" and rest: "run (h1, r1) cs = Some (ids2, h', r')"
    by (auto simp: bind_eq_Some_conv)
  from Cons.IH [OF owned_perform [OF Cons.prems(1) step] rest] show ?case .
qed

lemma owns_arrays_reachable:
  assumes "run ([], Registry_ctor) cs = Some (ids, h, r)"
  shows "owns_arrays h r"
proof -
  from owned_run [OF owned_fresh assms] show ?thesis ..
qed

section \<open>Views after assign and remove\<close>

text \<open>
  \<^verbatim>\<open>assign\<close> and \<^verbatim>\<open>remove\<close> end with \<^verbatim>\<open>on_entity_signature_change\<close>: when they return, every
  cached view agrees with the new signature of the entity they changed.
\<close>

lemma refresh_views_agree:
  "refresh_views view_signatures entity_signature entity views = (True, views') \<Longrightarrow>
   list_all (\<lambda>(view, entities).
       case map_of view_signatures view of
         None \<Rightarrow> False
       | Some view_signature \<Rightarrow>
           (entity \<in> entities) = ((entity_signature AND view_signature) = view_signature))
     views'"
proof (induction views arbitrary: views')
  case Nil
  then show ?case by simp
next
  case (Cons entry views)
  obtain view entities where entry: "entry = (view, entities)" by (cases entry)
  show ?case
  proof (cases "map_of view_signatures view")
    case None
    with Cons.prems entry show ?thesis by simp
  next
    case (Some view_signature)
    obtain ok rest where rest: "refresh_views view_signatures entity_signature entity views = (ok, rest)"
      by (cases "refresh_views view_signatures entity_signature entity views")
    with Cons.prems entry Some have ok: "ok" and views': "views' =
        (view, if (entity_signature AND view_signature) = view_signature
               then insert entity entities else entities - {entity}) # rest"
      by (simp_all add: Let_def)
    from Cons.IH [OF rest [unfolded ok [THEN eqTrueI]]] Some show ?thesis
      unfolding views' by simp
  qed
qed

lemma on_entity_signature_change_agrees:
  assumes "on_entity_signature_change r entity = (Returns (), r')"
  shows "views_agree_on r' entity"
proof -
  from assms have inside: "entity < ECS_MAX_ENTITY_COUNT"
    by (auto simp: on_entity_signature_change_def split: if_splits)
  obtain ok views where refreshed:
    "refresh_views (m_view_signatures r) (m_entity_signatures r entity) entity (m_view_entities r) =
       (ok, views)"
    by (cases "refresh_views (m_view_signatures r) (m_entity_signatures r entity) entity
                 (m_view_entities r)")
  with assms inside have ok: "ok" and r': "r' = r\<lparr>m_view_entities := views\<rparr>"
    by (auto simp: on_entity_signature_change_def Let_def split: if_splits)
  from refresh_views_agree [OF refreshed [unfolded ok [THEN eqTrueI]]] show ?thesis
    unfolding views_agree_on_def r' by (simp cong: option.case_cong)
qed

lemma assign_refreshes_views:
  assumes "assign h r T entity data = (Returns (), h', r')"
  shows "views_agree_on r' entity"
proof -
  obtain res1 h1 r1 where bit:
    "(if has_component_bit r T then (get_component_bit r T, h, r)
      else create_component_bit h r T) = (res1, h1, r1)"
    by (cases "if has_component_bit r T then (get_component_bit r T, h, r)
      else create_component_bit h r T") auto
  from assms bit obtain index where res1: "res1 = Returns index"
    by (cases res1) (auto simp: assign_def)
  from assms bit res1 obtain p where p: "m_component_arrays r1 index = Some p"
    by (cases "m_component_arrays r1 index") (auto simp: assign_def Let_def)
  from assms bit res1 p obtain seq where seq: "heap_at h1 p = Some seq"
    by (cases "heap_at h1 p") (auto simp: assign_def Let_def)
  let ?r2 = "r1\<lparr>m_components_assigned := (m_components_assigned r1)
                        (index := uint32_t (m_components_assigned r1 index + 1))\<rparr>"
  let ?r3 = "?r2\<lparr>m_entity_signatures := (m_entity_signatures ?r2)
                 (entity := set_bit index (m_entity_signatures ?r2 entity))\<rparr>"
  from assms bit res1 p seq have "on_entity_signature_change ?r3 entity = (Returns (), r')"
    by (auto simp: assign_def Let_def split: if_splits prod.splits)
  then show ?thesis by (rule on_entity_signature_change_agrees)
qed

lemma remove_refreshes_views:
  assumes "remove h r T entity = (Returns (), h', r')"
  shows "views_agree_on r' entity"
proof -
  from assms have bound: "has_component_bit r T"
    by (auto simp: remove_def split: if_splits)
  with assms obtain index where bit: "get_component_bit r T = Returns index"
    by (cases "get_component_bit r T") (auto simp: remove_def)
  from assms bound bit have held: "entity < ECS_MAX_ENTITY_COUNT"
      "bit (m_entity_signatures r entity) index"
    by (auto simp: remove_def split: if_splits)
  from assms bound bit held
  have "\<exists>r3. on_entity_signature_change r3 entity = (Returns (), r')"
    by (auto simp: remove_def Let_def split: if_splits prod.splits)
  then show ?thesis by (auto intro: on_entity_signature_change_agrees)
qed

section \<open>The departures, at every input\<close>

text \<open>
  What the evaluated scripts show is not particular to them. \<^verbatim>\<open>get\<close> never reads a signature
  and throws only for a type bound to no bit; \<^verbatim>\<open>destroy_entity\<close> never changes a cached
  view; the move assignment, and the copy assignment through it, leave arrays and counts
  where they were; and \<^verbatim>\<open>assign\<close> to a
  bound type adds 1 to the count whenever it returns, which changes every count that a
  \<^verbatim>\<open>uint32_t\<close> can hold.
\<close>

lemma get_ignores_signatures:
  "get h (r\<lparr>m_entity_signatures := signatures\<rparr>) T entity = get h r T entity"
proof (rule get_cong)
  show "m_bit_to_component (r\<lparr>m_entity_signatures := signatures\<rparr>) = m_bit_to_component r"
    by simp
next
  fix index :: nat
  show "(m_component_arrays (r\<lparr>m_entity_signatures := signatures\<rparr>) index = None \<and>
         m_component_arrays r index = None) \<or>
        (\<exists>p' p. m_component_arrays (r\<lparr>m_entity_signatures := signatures\<rparr>) index = Some p' \<and>
                m_component_arrays r index = Some p \<and> heap_at h p' = heap_at h p)"
    by (cases "m_component_arrays r index") simp_all
qed

lemma get_unbound_throws:
  assumes "\<not> has_component_bit r T"
  shows "get h r T entity =
           Throws (runtime_error ''Component bit queried on unregistered component.'')"
  using assms get_component_bit_cases [of r T]
  by (auto simp: has_component_bit_iff get_eq)

lemma release_slot_views:
  assumes "release_slot r entity = Some (res, r')"
  shows "m_view_entities r' = m_view_entities r"
proof (cases "entity < m_first_available_entity_slot r")
  case True
  with assms show ?thesis by (auto simp: release_slot_def)
next
  case False
  show ?thesis
  proof (cases "free_slot_scan (m_entities r) entity (m_first_available_entity_slot r)")
    case None
    with False assms show ?thesis by (simp add: release_slot_def)
  next
    case (Some scanned)
    with False assms show ?thesis
      by (cases scanned) (auto simp: release_slot_def split: if_splits)
  qed
qed

lemma unlink_entity_views:
  "m_view_entities (snd (unlink_entity r entity)) = m_view_entities r"
  by (simp add: unlink_entity_def Let_def)

lemma destroy_entity_views:
  assumes "destroy_entity r entity = Some (res, r')"
  shows "m_view_entities r' = m_view_entities r"
proof (cases "entity < ECS_MAX_ENTITY_COUNT")
  case False
  with assms show ?thesis by (simp add: destroy_entity_def)
next
  case True
  show ?thesis
  proof (cases "release_slot r entity")
    case None
    with True assms show ?thesis by (simp add: destroy_entity_def)
  next
    case (Some released)
    obtain res1 r1 where released: "released = (res1, r1)" by (cases released)
    note kept = release_slot_views [OF Some [unfolded released]]
    show ?thesis
    proof (cases res1)
      case (Returns u)
      with True Some released assms have "r' = snd (unlink_entity r1 entity)"
        by (simp add: destroy_entity_def)
      with kept show ?thesis by (simp add: unlink_entity_views)
    next
      case (Throws x)
      with True Some released assms kept show ?thesis by (simp add: destroy_entity_def)
    next
      case Undefined
      with True Some released assms kept show ?thesis by (simp add: destroy_entity_def)
    qed
  qed
qed

lemma move_assign_keeps_storage:
  "m_component_arrays (fst (move_assign this other)) = m_component_arrays this \<and>
   m_components_assigned (fst (move_assign this other)) = m_components_assigned this \<and>
   m_component_arrays (snd (move_assign this other)) = m_component_arrays other \<and>
   m_components_assigned (snd (move_assign this other)) = m_components_assigned other"
  by (simp add: move_assign_def)

lemma copy_assign_keeps_storage:
  assumes "copy_assign h this other = (Returns this', h')"
  shows "m_component_arrays this' = m_component_arrays this \<and>
         m_components_assigned this' = m_components_assigned this \<and>
         m_bit_to_component this' = m_bit_to_component other \<and>
         m_entity_signatures this' = m_entity_signatures other"
proof -
  obtain res h1 where copy: "Registry_copy h other = (res, h1)"
    by (cases "Registry_copy h other")
  with assms obtain temporary where res: "res = Returns temporary"
    by (cases res) (simp_all add: copy_assign_def)
  from copy res have "m_bit_to_component temporary = m_bit_to_component other"
      "m_entity_signatures temporary = m_entity_signatures other"
    by (auto simp: Registry_copy_def Let_def Registry_members_def split: prod.splits if_splits)
  moreover from assms copy res have "this' = fst (move_assign this temporary)"
    by (simp add: copy_assign_def Let_def split: prod.splits)
  ultimately show ?thesis by (simp add: move_assign_def)
qed

lemma assign_counts_every_call:
  assumes "get_component_bit r T = Returns index"
      and "assign h r T entity data = (Returns (), h', r')"
  shows "m_components_assigned r' index = uint32_t (m_components_assigned r index + 1)"
proof -
  from assms(1) get_component_bit_cases [of r T] have "has_component_bit r T"
    by (auto simp: has_component_bit_iff)
  with assms(1) have bit:
    "(if has_component_bit r T then (get_component_bit r T, h, r)
      else create_component_bit h r T) = (Returns index, h, r)"
    by simp
  let ?r2 = "r\<lparr>m_components_assigned := (m_components_assigned r)
                        (index := uint32_t (m_components_assigned r index + 1))\<rparr>"
  let ?r3 = "?r2\<lparr>m_entity_signatures := (m_entity_signatures ?r2)
                 (entity := set_bit index (m_entity_signatures ?r2 entity))\<rparr>"
  from assms(2) bit obtain p where p: "m_component_arrays r index = Some p"
    by (cases "m_component_arrays r index") (auto simp: assign_def Let_def)
  from assms(2) bit p obtain seq where seq: "heap_at h p = Some seq"
    by (cases "heap_at h p") (auto simp: assign_def Let_def)
  from assms(2) bit p seq have "r' = snd (on_entity_signature_change ?r3 entity)"
    by (auto simp: assign_def Let_def split: if_splits prod.splits)
  with on_entity_signature_change_views [of ?r3 entity]
  obtain views where "r' = ?r3\<lparr>m_view_entities := views\<rparr>" by auto
  then show ?thesis by simp
qed

lemma uint32_t_increment_changes:
  assumes "c < 4294967296"
  shows "uint32_t (c + 1) \<noteq> c"
proof (cases "c = 4294967295")
  case True
  then show ?thesis by (simp add: uint32_t_def)
next
  case False
  with assms have "c + 1 < 4294967296" by simp
  then show ?thesis by (simp add: uint32_t_def)
qed

end
